theory Spec2Isabelle
  imports Main "HOL-Library.Multiset"
begin

section \<open>Data model of the plugin backend (src/code.ts)\<close>

text \<open>
  \<open>PropKind\<close> is the closed union of the source. A \<open>jsval\<close> is a value of type
  \<open>unknown\<close>: what a default value or a preferred entry may hold. Numbers are the
  integer-valued ones.
\<close>

datatype PropKind = BOOLEAN | TEXT | NUMBER | INSTANCE_SWAP | VARIANT

datatype jsval =
    JUndefined
  | JNull
  | JBool bool
  | JNum int
  | JStr string
  | JArr "jsval list"
  | JObj "(string \<times> jsval) list"

text \<open>
  One entry of the host's \<open>componentPropertyDefinitions\<close>. \<open>d_defaultValue = None\<close> is
  \<open>!('defaultValue' in d)\<close>; \<open>d_preferredValues = None\<close> is a definition without an array
  under \<open>preferredValues\<close>; \<open>d_variantOptions = None\<close> is one without an array under
  \<open>variantOptions\<close>. The definitions object is the list of its own entries in
  \<open>Object.keys\<close> order.
\<close>

record ComponentPropertyDefinition =
  d_type :: PropKind
  d_defaultValue :: "jsval option"
  d_preferredValues :: "jsval list option"
  d_variantOptions :: "string list option"

type_synonym ComponentPropertyDefinitions = "(string \<times> ComponentPropertyDefinition) list"

record PropDefLite =
  name :: string
  type :: PropKind
  defaultValue :: jsval
  preferredValuesCount :: "nat option"
  preferredValuesRaw :: "jsval list option"
  preferredInstanceNames :: "string list option"
  variantOptions :: "string list option"

text \<open>
  Reading \<open>componentPropertyDefinitions\<close> off a host node either throws, yields
  \<open>undefined\<close>, or yields the definitions object.
\<close>

datatype DefsAccess = GetterThrows | Undefined | Defined ComponentPropertyDefinitions

record ComponentNode =
  comp_name :: string
  comp_defs :: DefsAccess

datatype ChildNode = Component ComponentNode | OtherChild

record ComponentSetNode =
  set_name :: string
  set_defs :: DefsAccess
  set_children :: "ChildNode list"

record Target =
  target_set :: "ComponentSetNode option"
  target_component :: "ComponentNode option"

datatype js_error = TypeError | HostError

record Collected =
  defs :: "string \<rightharpoonup> PropDefLite"
  order :: "string list"

section \<open>Helpers\<close>

definition cleanPropName :: "string \<Rightarrow> string" where
  "cleanPropName key = takeWhile (\<lambda>c. c \<noteq> CHR ''#'') key"

section \<open>The ordering heuristic\<close>

text \<open>
  The three collectors inline the same block: \<open>items\<close>, \<open>variantKeys\<close>, \<open>others\<close>,
  \<open>hasMap\<close>, then the loop over \<open>others\<close> with \<open>taken\<close> and \<open>orderedOthers\<close>, then
  \<open>keys = variantKeys.concat(orderedOthers)\<close>.
\<close>

record item =
  it_key :: string
  it_type :: PropKind
  it_name :: string

definition itemsOf :: "ComponentPropertyDefinitions \<Rightarrow> item list" where
  "itemsOf ds = map (\<lambda>(k, d). \<lparr>it_key = k, it_type = d_type d, it_name = cleanPropName k\<rparr>) ds"

definition hasMapOf :: "item list \<Rightarrow> (string \<rightharpoonup> string)" where
  "hasMapOf others =
     foldl (\<lambda>m it. if take 4 (it_name it) = ''Has '' then m(drop 4 (it_name it) \<mapsto> it_key it) else m)
       Map.empty others"

fun pairLoop :: "(string \<rightharpoonup> string) \<Rightarrow> item list \<Rightarrow> string set \<Rightarrow> string list \<Rightarrow> string list" where
  "pairLoop hasMap [] taken orderedOthers = orderedOthers"
| "pairLoop hasMap (it # its) taken orderedOthers =
     (if it_key it \<in> taken then pairLoop hasMap its taken orderedOthers
      else (case hasMap (it_name it) of
          None \<Rightarrow> pairLoop hasMap its (insert (it_key it) taken) (orderedOthers @ [it_key it])
        | Some hasKey \<Rightarrow>
            if hasKey \<noteq> [] \<and> hasKey \<notin> taken
            then pairLoop hasMap its (insert (it_key it) (insert hasKey taken))
                   (orderedOthers @ [hasKey, it_key it])
            else pairLoop hasMap its (insert (it_key it) taken) (orderedOthers @ [it_key it])))"

definition heuristicKeys :: "ComponentPropertyDefinitions \<Rightarrow> string list" where
  "heuristicKeys ds =
     (let items = itemsOf ds;
          variantKeys = map it_key (filter (\<lambda>i. it_type i = VARIANT) items);
          others = filter (\<lambda>i. it_type i \<noteq> VARIANT) items;
          hasMap = hasMapOf others
      in variantKeys @ pairLoop hasMap others {} [])"

section \<open>Collectors\<close>

definition liteDefault :: "ComponentPropertyDefinition \<Rightarrow> jsval" where
  "liteDefault d =
     (if d_type d = VARIANT then JUndefined
      else (case d_defaultValue d of None \<Rightarrow> JUndefined | Some v \<Rightarrow> v))"

text \<open>The entry \<open>collectPropsFromComponent\<close> stores: it copies any option array.\<close>

definition liteOfComponent :: "string \<Rightarrow> ComponentPropertyDefinition \<Rightarrow> PropDefLite" where
  "liteOfComponent key d =
     \<lparr>name = cleanPropName key, type = d_type d, defaultValue = liteDefault d,
      preferredValuesCount = map_option length (d_preferredValues d),
      preferredValuesRaw = d_preferredValues d,
      preferredInstanceNames = None,
      variantOptions = d_variantOptions d\<rparr>"

text \<open>The entry \<open>collectComponentPropsWithOrder\<close> stores: options only for a VARIANT.\<close>

definition liteOfSet :: "string \<Rightarrow> ComponentPropertyDefinition \<Rightarrow> PropDefLite" where
  "liteOfSet key d =
     \<lparr>name = cleanPropName key, type = d_type d, defaultValue = liteDefault d,
      preferredValuesCount = map_option length (d_preferredValues d),
      preferredValuesRaw = d_preferredValues d,
      preferredInstanceNames = None,
      variantOptions = (if d_type d = VARIANT then d_variantOptions d else None)\<rparr>"

text \<open>
  \<open>for (const key of keys)\<close> of the set-level and single-component paths. \<open>defs[key]\<close> is
  \<open>undefined\<close> for a key the object does not own, and \<open>d.type\<close> then throws.
\<close>

fun fillDefs :: "(string \<Rightarrow> ComponentPropertyDefinition \<Rightarrow> PropDefLite) \<Rightarrow>
    ComponentPropertyDefinitions \<Rightarrow> string list \<Rightarrow> Collected \<Rightarrow> js_error + Collected" where
  "fillDefs mk ds [] c = Inr c"
| "fillDefs mk ds (key # keys) c =
     (case map_of ds key of
        None \<Rightarrow> Inl TypeError
      | Some d \<Rightarrow> fillDefs mk ds keys \<lparr>defs = (defs c)(key \<mapsto> mk key d), order = order c @ [key]\<rparr>)"

definition collectPropsFromComponent :: "ComponentNode \<Rightarrow> js_error + Collected" where
  "collectPropsFromComponent cn =
     (case comp_defs cn of
        GetterThrows \<Rightarrow> Inl HostError
      | Undefined \<Rightarrow> Inr \<lparr>defs = Map.empty, order = []\<rparr>
      | Defined ds \<Rightarrow> fillDefs liteOfComponent ds (heuristicKeys ds) \<lparr>defs = Map.empty, order = []\<rparr>)"

text \<open>
  The legacy fallback tests \<open>!out[key]\<close> on a plain object literal, whose lookup also
  finds the members every object inherits from \<open>Object.prototype\<close>; those are truthy.
\<close>

definition objectPrototypeMembers :: "string list" where
  "objectPrototypeMembers =
     [''constructor'', ''__defineGetter__'', ''__defineSetter__'', ''hasOwnProperty'',
      ''__lookupGetter__'', ''__lookupSetter__'', ''isPrototypeOf'', ''propertyIsEnumerable'',
      ''toString'', ''valueOf'', ''__proto__'', ''toLocaleString'']"

definition outTruthy :: "(string \<rightharpoonup> PropDefLite) \<Rightarrow> string \<Rightarrow> bool" where
  "outTruthy out key = (out key \<noteq> None \<or> key \<in> set objectPrototypeMembers)"

text \<open>\<open>for (const key of keys)\<close> of the legacy fallback, with its \<open>seen\<close> set.\<close>

fun mergeDefs :: "ComponentPropertyDefinitions \<Rightarrow> string list \<Rightarrow> string set \<times> Collected \<Rightarrow>
    js_error + string set \<times> Collected" where
  "mergeDefs ds [] sc = Inr sc"
| "mergeDefs ds (key # keys) (seen, c) =
     (case map_of ds key of
        None \<Rightarrow> Inl TypeError
      | Some d \<Rightarrow>
          mergeDefs ds keys
            (insert key seen,
             \<lparr>defs = (if outTruthy (defs c) key then defs c else (defs c)(key \<mapsto> liteOfSet key d)),
              order = (if key \<in> seen then order c else order c @ [key])\<rparr>))"

text \<open>\<open>for (const c of comps)\<close> of the legacy fallback.\<close>

fun legacyLoop :: "ComponentNode list \<Rightarrow> string set \<times> Collected \<Rightarrow> js_error + string set \<times> Collected" where
  "legacyLoop [] sc = Inr sc"
| "legacyLoop (c # comps) sc =
     (case comp_defs c of
        GetterThrows \<Rightarrow> Inl HostError
      | Undefined \<Rightarrow> legacyLoop comps sc
      | Defined ds \<Rightarrow>
          (case mergeDefs ds (heuristicKeys ds) sc of
             Inl e \<Rightarrow> Inl e
           | Inr sc' \<Rightarrow> legacyLoop comps sc'))"

fun componentsOf :: "ChildNode list \<Rightarrow> ComponentNode list" where
  "componentsOf [] = []"
| "componentsOf (Component c # ns) = c # componentsOf ns"
| "componentsOf (OtherChild # ns) = componentsOf ns"

definition collectComponentPropsWithOrder :: "ComponentSetNode \<Rightarrow> js_error + Collected" where
  "collectComponentPropsWithOrder s =
     (case set_defs s of
        GetterThrows \<Rightarrow> Inl HostError
      | Defined ds \<Rightarrow> fillDefs liteOfSet ds (heuristicKeys ds) \<lparr>defs = Map.empty, order = []\<rparr>
      | Undefined \<Rightarrow>
          (case legacyLoop (componentsOf (set_children s)) ({}, \<lparr>defs = Map.empty, order = []\<rparr>) of
             Inl e \<Rightarrow> Inl e
           | Inr (seen, c) \<Rightarrow> Inr c))"

section \<open>Reference inputs\<close>

text \<open>
  The definitions of the specification's Scenario A (a button with two variant axes, a
  boolean toggle, an instance swap and a text), on a set, on a loose component, and on a
  legacy set whose definitions are only on its members.
\<close>

definition buttonDefs :: ComponentPropertyDefinitions where
  "buttonDefs =
     [(''Has Left Icon'', \<lparr>d_type = BOOLEAN, d_defaultValue = Some (JBool True),
          d_preferredValues = None, d_variantOptions = None\<rparr>),
      (''Left Icon'', \<lparr>d_type = INSTANCE_SWAP, d_defaultValue = Some (JStr ''10:1''),
          d_preferredValues = Some [JStr ''20:1'', JStr ''20:2'', JStr ''20:3''], d_variantOptions = None\<rparr>),
      (''Text'', \<lparr>d_type = TEXT, d_defaultValue = Some (JStr ''Body text''),
          d_preferredValues = None, d_variantOptions = None\<rparr>),
      (''Size#1'', \<lparr>d_type = VARIANT, d_defaultValue = Some (JStr ''L''),
          d_preferredValues = None, d_variantOptions = Some [''L'', ''M'', ''S'']\<rparr>),
      (''Variant#2'', \<lparr>d_type = VARIANT, d_defaultValue = Some (JStr ''Primary''),
          d_preferredValues = None,
          d_variantOptions = Some [''Primary'', ''Secondary'', ''Tertiary'', ''Tonal'', ''Danger/Text'', ''Overlay'']\<rparr>)]"

definition buttonSet :: ComponentSetNode where
  "buttonSet = \<lparr>set_name = ''Button'', set_defs = Defined buttonDefs, set_children = []\<rparr>"

definition buttonComponent :: ComponentNode where
  "buttonComponent = \<lparr>comp_name = ''Button'', comp_defs = Defined buttonDefs\<rparr>"

definition legacyButtonSet :: ComponentSetNode where
  "legacyButtonSet = \<lparr>set_name = ''Button'', set_defs = Undefined,
     set_children = [Component buttonComponent, OtherChild, Component buttonComponent]\<rparr>"


text \<open>The union of the keys the members of a legacy set define.\<close>

fun definedKeys :: "ComponentNode list \<Rightarrow> string set" where
  "definedKeys [] = {}"
| "definedKeys (c # cs) = (case comp_defs c of Defined ds \<Rightarrow> fst ` set ds | _ \<Rightarrow> {}) \<union> definedKeys cs"


section \<open>Reading an order\<close>


definition precedes :: "'a \<Rightarrow> 'a \<Rightarrow> 'a list \<Rightarrow> bool" where
  "precedes a b xs = (b \<in> set (drop 1 (dropWhile (\<lambda>x. x \<noteq> a) xs)))"

definition kindsInOrder :: "Collected \<Rightarrow> PropKind option list" where
  "kindsInOrder c = map (\<lambda>k. map_option type (defs c k)) (order c)"

definition variantsFirst :: "Collected \<Rightarrow> bool" where
  "variantsFirst c = (Some VARIANT \<notin> set (dropWhile (\<lambda>x. x = Some VARIANT) (kindsInOrder c)))"

text \<open>Small inputs: a definition that has only a kind, and sets built from such.\<close>

definition plainDef :: "PropKind \<Rightarrow> ComponentPropertyDefinition" where
  "plainDef k = \<lparr>d_type = k, d_defaultValue = None, d_preferredValues = None, d_variantOptions = None\<rparr>"

definition hasIconDefs :: ComponentPropertyDefinitions where
  "hasIconDefs = [(''Has Icon#1:0'', plainDef BOOLEAN), (''Label#1:1'', plainDef TEXT),
                  (''Icon#1:2'', plainDef INSTANCE_SWAP)]"

definition iconFirstDefs :: ComponentPropertyDefinitions where
  "iconFirstDefs = [(''Icon#1:2'', plainDef INSTANCE_SWAP), (''Label#1:1'', plainDef TEXT),
                    (''Has Icon#1:0'', plainDef BOOLEAN)]"

definition legacyMixedSet :: ComponentSetNode where
  "legacyMixedSet = \<lparr>set_name = ''Chip'', set_defs = Undefined,
     set_children = [Component \<lparr>comp_name = ''Chip/plain'', comp_defs = Defined [(''Label#1:0'', plainDef TEXT)]\<rparr>,
                     Component \<lparr>comp_name = ''Chip/sized'', comp_defs = Defined [(''Size'', plainDef VARIANT)]\<rparr>]\<rparr>"

text \<open>The order, and the kinds in order, of a collector's result.\<close>

definition orderOf :: "js_error + Collected \<Rightarrow> js_error + string list" where
  "orderOf r = (case r of Inl e \<Rightarrow> Inl e | Inr c \<Rightarrow> Inr (order c))"

definition hasIconSet :: ComponentSetNode where
  "hasIconSet = \<lparr>set_name = ''Chip'', set_defs = Defined hasIconDefs, set_children = []\<rparr>"

definition iconFirstSet :: ComponentSetNode where
  "iconFirstSet = \<lparr>set_name = ''Chip'', set_defs = Defined iconFirstDefs, set_children = []\<rparr>"


definition kindsOf :: "js_error + Collected \<Rightarrow> js_error + PropKind option list" where
  "kindsOf r = (case r of Inl e \<Rightarrow> Inl e | Inr c \<Rightarrow> Inr (kindsInOrder c))"


definition legacySplitPairSet :: ComponentSetNode where
  "legacySplitPairSet = \<lparr>set_name = ''Chip'', set_defs = Undefined,
     set_children =
       [Component \<lparr>comp_name = ''Chip/a'', comp_defs = Defined [(''Icon#1:2'', plainDef INSTANCE_SWAP)]\<rparr>,
        Component \<lparr>comp_name = ''Chip/b'',
           comp_defs = Defined [(''Has Icon#1:0'', plainDef BOOLEAN), (''Icon#1:2'', plainDef INSTANCE_SWAP)]\<rparr>]\<rparr>"

definition interleavedDefs :: ComponentPropertyDefinitions where
  "interleavedDefs = [(''A#1'', plainDef TEXT), (''Has X#2'', plainDef BOOLEAN),
                      (''Has A#3'', plainDef BOOLEAN), (''X#4'', plainDef TEXT)]"

definition interleavedSet :: ComponentSetNode where
  "interleavedSet = \<lparr>set_name = ''Chip'', set_defs = Defined interleavedDefs, set_children = []\<rparr>"

section \<open>First-seen-wins, stated\<close>

text \<open>
  What first-seen-wins means for a legacy set: \<open>firstDefinition\<close> is the definition of a
  key on the first member (in the given order) that defines it; \<open>memberKeyOrder\<close> is the
  members' heuristic key orders one after the other; \<open>firstOccurrences\<close> keeps the first
  occurrence of each element of a list.
\<close>

fun firstDefinition :: "ComponentNode list \<Rightarrow> string \<Rightarrow> ComponentPropertyDefinition option" where
  "firstDefinition [] k = None"
| "firstDefinition (c # cs) k =
     (case comp_defs c of
        Defined ds \<Rightarrow> (case map_of ds k of Some d \<Rightarrow> Some d | None \<Rightarrow> firstDefinition cs k)
      | GetterThrows \<Rightarrow> firstDefinition cs k
      | Undefined \<Rightarrow> firstDefinition cs k)"

fun memberKeyOrder :: "ComponentNode list \<Rightarrow> string list" where
  "memberKeyOrder [] = []"
| "memberKeyOrder (c # cs) =
     (case comp_defs c of
        Defined ds \<Rightarrow> heuristicKeys ds @ memberKeyOrder cs
      | GetterThrows \<Rightarrow> memberKeyOrder cs
      | Undefined \<Rightarrow> memberKeyOrder cs)"

definition pushUnseen :: "'a list \<Rightarrow> 'a \<Rightarrow> 'a list" where
  "pushUnseen acc x = (if x \<in> set acc then acc else acc @ [x])"

definition firstOccurrences :: "'a list \<Rightarrow> 'a list" where
  "firstOccurrences xs = foldl pushUnseen [] xs"

text \<open>A legacy set with one member, and a later member that redefines its key.\<close>

definition labelDef :: "string \<Rightarrow> ComponentPropertyDefinition" where
  "labelDef v = \<lparr>d_type = TEXT, d_defaultValue = Some (JStr v), d_preferredValues = None,
                 d_variantOptions = None\<rparr>"

definition legacyFirstMember :: ComponentSetNode where
  "legacyFirstMember = \<lparr>set_name = ''Chip'', set_defs = Undefined,
     set_children = [Component \<lparr>comp_name = ''Chip/a'', comp_defs = Defined [(''Label#1:0'', labelDef ''A'')]\<rparr>]\<rparr>"

definition laterMember :: ComponentNode where
  "laterMember = \<lparr>comp_name = ''Chip/b'',
     comp_defs = Defined [(''Size'', plainDef VARIANT), (''Label#1:0'', labelDef ''B'')]\<rparr>"

definition legacyBothMembers :: ComponentSetNode where
  "legacyBothMembers = legacyFirstMember\<lparr>set_children := set_children legacyFirstMember @ [Component laterMember]\<rparr>"

definition legacyConstructorSet :: ComponentSetNode where
  "legacyConstructorSet = \<lparr>set_name = ''Chip'', set_defs = Undefined,
     set_children = [Component \<lparr>comp_name = ''Chip/a'', comp_defs = Defined [(''constructor'', plainDef VARIANT)]\<rparr>]\<rparr>"

text \<open>The same definitions exposed by the set itself, and the entry a result stores for a key.\<close>

definition setLevelConstructorSet :: ComponentSetNode where
  "setLevelConstructorSet = \<lparr>set_name = ''Chip'', set_defs = Defined [(''constructor'', plainDef VARIANT)],
     set_children = []\<rparr>"

definition storedOf :: "js_error + Collected \<Rightarrow> string \<Rightarrow> js_error + PropDefLite option" where
  "storedOf r k = (case r of Inl e \<Rightarrow> Inl e | Inr c \<Rightarrow> Inr (defs c k))"

text \<open>
  What \<open>figma.getNodeByIdAsync(id)\<close> does for an id: it yields a node (of which only the
  name is read), yields \<open>null\<close>, never completes, or rejects.
\<close>

datatype Lookup = Found string | Missing | Pending | Rejected

text \<open>
  \<open>withTimeout\<close> races the lookup against the timer: the node when the lookup completes
  with one, \<open>null\<close> or \<open>undefined\<close> otherwise; it never rejects and never hangs.
\<close>

definition withTimeout :: "Lookup \<Rightarrow> string option" where
  "withTimeout l = (case l of Found n \<Rightarrow> Some n | Missing \<Rightarrow> None | Pending \<Rightarrow> None | Rejected \<Rightarrow> None)"

definition resolveSwapName :: "(string \<Rightarrow> Lookup) \<Rightarrow> jsval \<Rightarrow> string option" where
  "resolveSwapName nodeById v =
     (case v of
        JStr s \<Rightarrow> if s = [] then None else withTimeout (nodeById s)
      | _ \<Rightarrow> None)"

fun stringField :: "(string \<times> jsval) list \<Rightarrow> string \<Rightarrow> string option" where
  "stringField fs f = (case map_of fs f of Some (JStr s) \<Rightarrow> Some s | _ \<Rightarrow> None)"

fun extractNodeIdFromPreferred :: "jsval \<Rightarrow> string option" where
  "extractNodeIdFromPreferred (JStr s) = Some s"
| "extractNodeIdFromPreferred (JObj fs) =
     (case stringField fs ''id'' of
        Some s \<Rightarrow> Some s
      | None \<Rightarrow> (case stringField fs ''value'' of
          Some s \<Rightarrow> Some s
        | None \<Rightarrow> stringField fs ''nodeId''))"
| "extractNodeIdFromPreferred v = None"

text \<open>
  The loop of \<open>resolvePreferredInstanceNames\<close> (lines 598-614): its state is \<open>names\<close>,
  \<open>seen\<close> and, for the order of the lookups, the ids looked up so far.
\<close>

record PrefState =
  ps_names :: "string list"
  ps_seen :: "string set"
  ps_lookups :: "string list"

fun prefLoop :: "(string \<Rightarrow> Lookup) \<Rightarrow> jsval list \<Rightarrow> PrefState \<Rightarrow> PrefState" where
  "prefLoop nodeById [] st = st"
| "prefLoop nodeById (item # items) st =
     (case extractNodeIdFromPreferred item of
        None \<Rightarrow> prefLoop nodeById items st
      | Some nid \<Rightarrow>
          if nid = [] then prefLoop nodeById items st
          else (case withTimeout (nodeById nid) of
              None \<Rightarrow> prefLoop nodeById items (st\<lparr>ps_lookups := ps_lookups st @ [nid]\<rparr>)
            | Some nm \<Rightarrow>
                if nm \<noteq> [] \<and> nm \<notin> ps_seen st
                then prefLoop nodeById items
                       \<lparr>ps_names = ps_names st @ [nm], ps_seen = insert nm (ps_seen st),
                        ps_lookups = ps_lookups st @ [nid]\<rparr>
                else prefLoop nodeById items (st\<lparr>ps_lookups := ps_lookups st @ [nid]\<rparr>)))"

definition resolvePreferredRun :: "(string \<Rightarrow> Lookup) \<Rightarrow> jsval \<Rightarrow> PrefState" where
  "resolvePreferredRun nodeById pref =
     (case pref of
        JArr items \<Rightarrow> prefLoop nodeById items \<lparr>ps_names = [], ps_seen = {}, ps_lookups = []\<rparr>
      | _ \<Rightarrow> \<lparr>ps_names = [], ps_seen = {}, ps_lookups = []\<rparr>)"

definition resolvePreferredInstanceNames :: "(string \<Rightarrow> Lookup) \<Rightarrow> jsval \<Rightarrow> string list" where
  "resolvePreferredInstanceNames nodeById pref = ps_names (resolvePreferredRun nodeById pref)"

text \<open>
  The same function in the older backend file (lines 59-74): no timeout, so a lookup that
  never completes leaves the function without a result (\<open>None\<close>), and no \<open>seen\<close> set.
\<close>

fun prefLoop_v1 :: "(string \<Rightarrow> Lookup) \<Rightarrow> jsval list \<Rightarrow> string list \<Rightarrow> string list option" where
  "prefLoop_v1 nodeById [] names = Some names"
| "prefLoop_v1 nodeById (item # items) names =
     (case extractNodeIdFromPreferred item of
        None \<Rightarrow> prefLoop_v1 nodeById items names
      | Some nid \<Rightarrow>
          if nid = [] then prefLoop_v1 nodeById items names
          else (case nodeById nid of
              Found nm \<Rightarrow> prefLoop_v1 nodeById items (names @ [nm])
            | Missing \<Rightarrow> prefLoop_v1 nodeById items names
            | Rejected \<Rightarrow> prefLoop_v1 nodeById items names
            | Pending \<Rightarrow> None))"

definition resolvePreferredInstanceNames_v1 :: "(string \<Rightarrow> Lookup) \<Rightarrow> jsval \<Rightarrow> string list option" where
  "resolvePreferredInstanceNames_v1 nodeById pref =
     (case pref of JArr items \<Rightarrow> prefLoop_v1 nodeById items [] | _ \<Rightarrow> Some [])"

text \<open>
  The claim's words: the ids an entry list refers to, in order; the names those resolve
  to (a lookup that yields no node, or a node without a name to show, gives none).
\<close>

definition referencedIds :: "jsval list \<Rightarrow> string list" where
  "referencedIds items = filter (\<lambda>nid. nid \<noteq> []) (List.map_filter extractNodeIdFromPreferred items)"

definition resolvedName :: "(string \<Rightarrow> Lookup) \<Rightarrow> string \<Rightarrow> string option" where
  "resolvedName nodeById nid = (case nodeById nid of Found n \<Rightarrow> if n = [] then None else Some n | _ \<Rightarrow> None)"

text \<open>A lookup table for the examples.\<close>

definition iconNodes :: "string \<Rightarrow> Lookup" where
  "iconNodes nid =
     (if nid = ''10:1'' then Found ''dashboard_customize''
      else if nid = ''20:1'' then Found ''icon/chevron-left''
      else if nid = ''20:2'' then Found ''icon/back''
      else if nid = ''20:3'' then Found ''icon/menu''
      else if nid = ''20:4'' then Found ''icon/back''
      else if nid = ''30:1'' then Pending
      else if nid = ''30:2'' then Rejected
      else Missing)"

text \<open>
  \<open>String(n)\<close> for a whole number. Numbers are modelled as whole numbers and printed in
  plain decimal, which is what \<open>String\<close> gives for a whole number below \<open>10^21\<close> in
  magnitude; fractions, \<open>NaN\<close>, the infinities and the exponent form of larger numbers
  are outside the model. Only the default of a TEXT or NUMBER property is printed so.
\<close>

fun showNat :: "nat \<Rightarrow> string" where
  "showNat n = (if n < 10 then [''0123456789'' ! n] else showNat (n div 10) @ [''0123456789'' ! (n mod 10)])"

declare showNat.simps [simp del]

definition showInt :: "int \<Rightarrow> string" where
  "showInt i = (if i < 0 then ''-'' @ showNat (nat (- i)) else showNat (nat i))"

fun joinWith :: "string \<Rightarrow> string list \<Rightarrow> string" where
  "joinWith sep [] = []"
| "joinWith sep [x] = x"
| "joinWith sep (x # y # zs) = x @ sep @ joinWith sep (y # zs)"

text \<open>\<open>String(v)\<close>, which is also what a template literal inserts.\<close>

fun jsString :: "jsval \<Rightarrow> string" where
  "jsString JUndefined = ''undefined''"
| "jsString JNull = ''null''"
| "jsString (JBool b) = (if b then ''true'' else ''false'')"
| "jsString (JNum i) = showInt i"
| "jsString (JStr s) = s"
| "jsString (JArr vs) =
     joinWith '','' (map (\<lambda>v. case v of JUndefined \<Rightarrow> [] | JNull \<Rightarrow> [] | _ \<Rightarrow> jsString v) vs)"
| "jsString (JObj fs) = ''[object Object]''"

definition kindString :: "PropKind \<Rightarrow> string" where
  "kindString k = (case k of BOOLEAN \<Rightarrow> ''BOOLEAN'' | TEXT \<Rightarrow> ''TEXT'' | NUMBER \<Rightarrow> ''NUMBER''
       | INSTANCE_SWAP \<Rightarrow> ''INSTANCE_SWAP'' | VARIANT \<Rightarrow> ''VARIANT'')"

text \<open>\<open>kind.replace('_', ' ')\<close>: the first underscore becomes a space.\<close>

fun replaceFirstUnderscore :: "string \<Rightarrow> string" where
  "replaceFirstUnderscore [] = []"
| "replaceFirstUnderscore (c # cs) = (if c = CHR ''_'' then CHR '' '' # cs else c # replaceFirstUnderscore cs)"

text \<open>The names the markdown stanza of an INSTANCE_SWAP lists.\<close>

definition markdownPrefNames :: "(string \<Rightarrow> Lookup) \<Rightarrow> PropDefLite \<Rightarrow> string list" where
  "markdownPrefNames nodeById d =
     (case preferredInstanceNames d of
        Some (n # ns) \<Rightarrow> n # ns
      | _ \<Rightarrow> (case preferredValuesRaw d of
          Some raw \<Rightarrow> resolvePreferredInstanceNames nodeById (JArr raw)
        | None \<Rightarrow> []))"

text \<open>The lines one property adds to the markdown (after the guard \<open>!d || !d.type\<close>).\<close>

definition markdownStanza :: "(string \<Rightarrow> Lookup) \<Rightarrow> PropDefLite \<Rightarrow> string list" where
  "markdownStanza nodeById d =
     [''['' @ replaceFirstUnderscore (kindString (type d)) @ ''] **'' @ name d @ ''**'' @ ''  ''] @
     (case type d of
        BOOLEAN \<Rightarrow>
          [''Values: True / False''] @
          (case defaultValue d of JBool b \<Rightarrow> [''Default: '' @ jsString (JBool b)] | _ \<Rightarrow> [])
      | TEXT \<Rightarrow>
          (if defaultValue d \<noteq> JUndefined \<and> defaultValue d \<noteq> JNull \<and> jsString (defaultValue d) \<noteq> []
           then [''Default: '' @ jsString (defaultValue d)] else [])
      | NUMBER \<Rightarrow>
          (if defaultValue d \<noteq> JUndefined \<and> defaultValue d \<noteq> JNull \<and> jsString (defaultValue d) \<noteq> []
           then [''Default: '' @ jsString (defaultValue d)] else [])
      | INSTANCE_SWAP \<Rightarrow>
          (case resolveSwapName nodeById (defaultValue d) of
             Some (r # rs) \<Rightarrow> [''Default: '' @ (r # rs)]
           | _ \<Rightarrow> (case defaultValue d of
                     JStr (c # cs) \<Rightarrow> [''Default: '' @ (c # cs)]
                   | _ \<Rightarrow> [])) @
          (let prefNames = markdownPrefNames nodeById d in
           if prefNames \<noteq> []
           then [''Preferred Instances ('' @ showNat (length prefNames) @ ''): '' @ joinWith '', '' prefNames]
           else (case preferredValuesCount d of
                   Some n \<Rightarrow> [''Preferred Instances ('' @ showNat n @ '')'']
                 | None \<Rightarrow> []))
      | VARIANT \<Rightarrow>
          (case variantOptions d of
             Some (v # vs) \<Rightarrow> [''Values: '' @ joinWith '', '' (v # vs)]
           | _ \<Rightarrow> [])) @
     ['''']"

text \<open>
  \<open>collected\<close>, \<open>name\<close> and \<open>variantCount\<close> of both renderers and of the selection push.
  A target with neither a set nor a component makes \<open>target.component!.name\<close> throw.
\<close>

definition targetName :: "Target \<Rightarrow> js_error + string" where
  "targetName t =
     (case target_set t of
        Some s \<Rightarrow> Inr (set_name s)
      | None \<Rightarrow> (case target_component t of Some c \<Rightarrow> Inr (comp_name c) | None \<Rightarrow> Inl TypeError))"

definition targetCollected :: "Target \<Rightarrow> js_error + Collected" where
  "targetCollected t =
     (case target_set t of
        Some s \<Rightarrow> collectComponentPropsWithOrder s
      | None \<Rightarrow> (case target_component t of Some c \<Rightarrow> collectPropsFromComponent c | None \<Rightarrow> Inl TypeError))"

definition targetVariantCount :: "Target \<Rightarrow> nat" where
  "targetVariantCount t =
     (case target_set t of Some s \<Rightarrow> length (componentsOf (set_children s)) | None \<Rightarrow> 1)"

definition toMarkdownLines :: "(string \<Rightarrow> Lookup) \<Rightarrow> Target \<Rightarrow> js_error + string list" where
  "toMarkdownLines nodeById t =
     (case targetName t of
        Inl e \<Rightarrow> Inl e
      | Inr nm \<Rightarrow>
         (case targetCollected t of
            Inl e \<Rightarrow> Inl e
          | Inr c \<Rightarrow>
              Inr ([''# '' @ nm, '''', ''## Overview'',
                    ''- Variants: '' @ showNat (targetVariantCount t),
                    ''- Component Properties: '' @ showNat (length (order c)),
                    '''', ''## Component Props''] @
                   concat (map (\<lambda>key. case defs c key of None \<Rightarrow> [] | Some d \<Rightarrow> markdownStanza nodeById d)
                            (order c)))))"

definition toMarkdownTarget :: "(string \<Rightarrow> Lookup) \<Rightarrow> Target \<Rightarrow> js_error + string" where
  "toMarkdownTarget nodeById t =
     (case toMarkdownLines nodeById t of Inl e \<Rightarrow> Inl e | Inr ls \<Rightarrow> Inr (joinWith [CHR 0x0A] ls))"

record PrettyProp =
  p_name :: string
  p_type :: string
  p_default :: "jsval option"
  p_preferredInstancesCount :: "nat option"
  p_preferredInstances :: "string list option"
  p_values :: "string list option"

text \<open>
  One record of \<open>pretty.componentProps\<close>. A field that is \<open>None\<close> is a property the
  record does not have; \<open>Some JNull\<close> is a property whose value is \<open>null\<close>. For a key
  without a stored definition, \<open>defs[k]\<close> is \<open>undefined\<close> or an inherited member of
  \<open>Object.prototype\<close>; of those only the function \<open>constructor\<close> has a \<open>name\<close> other than
  the key.
\<close>

definition prettyOf :: "(string \<Rightarrow> Lookup) \<Rightarrow> string \<Rightarrow> PropDefLite option \<Rightarrow> PrettyProp" where
  "prettyOf nodeById k dopt =
     (case dopt of
        None \<Rightarrow> \<lparr>p_name = (if k = ''constructor'' then ''Object'' else k), p_type = ''UNKNOWN'',
                  p_default = None, p_preferredInstancesCount = None, p_preferredInstances = None,
                  p_values = None\<rparr>
      | Some d \<Rightarrow>
          (let pretty = \<lparr>p_name = name d, p_type = kindString (type d), p_default = None,
                         p_preferredInstancesCount = None, p_preferredInstances = None, p_values = None\<rparr>
           in case type d of
                BOOLEAN \<Rightarrow> (if defaultValue d \<noteq> JUndefined then pretty\<lparr>p_default := Some (defaultValue d)\<rparr> else pretty)
              | TEXT \<Rightarrow> (if defaultValue d \<noteq> JUndefined then pretty\<lparr>p_default := Some (defaultValue d)\<rparr> else pretty)
              | NUMBER \<Rightarrow> (if defaultValue d \<noteq> JUndefined then pretty\<lparr>p_default := Some (defaultValue d)\<rparr> else pretty)
              | INSTANCE_SWAP \<Rightarrow>
                  (let prefNames = (case preferredInstanceNames d of
                                      Some ns \<Rightarrow> ns
                                    | None \<Rightarrow> (case preferredValuesRaw d of
                                          Some raw \<Rightarrow> resolvePreferredInstanceNames nodeById (JArr raw)
                                        | None \<Rightarrow> []))
                   in pretty\<lparr>p_default :=
                                Some (case resolveSwapName nodeById (defaultValue d) of
                                        Some (r # rs) \<Rightarrow> JStr (r # rs)
                                      | _ \<Rightarrow> (case defaultValue d of JStr s \<Rightarrow> JStr s | _ \<Rightarrow> JNull)),
                              p_preferredInstancesCount := preferredValuesCount d,
                              p_preferredInstances := (if prefNames \<noteq> [] then Some prefNames else None)\<rparr>)
              | VARIANT \<Rightarrow> pretty\<lparr>p_values := variantOptions d\<rparr>))"

text \<open>The payload that \<open>toJSONSummaryTarget\<close> hands to \<open>JSON.stringify\<close>.\<close>

record JsonSummary =
  js_name :: string
  js_variantsCount :: nat
  js_componentPropsCount :: nat
  js_componentProps :: "PropDefLite option list"
  js_prettyComponentProps :: "PrettyProp list"

definition toJSONSummaryTarget :: "(string \<Rightarrow> Lookup) \<Rightarrow> Target \<Rightarrow> js_error + JsonSummary" where
  "toJSONSummaryTarget nodeById t =
     (case targetName t of
        Inl e \<Rightarrow> Inl e
      | Inr nm \<Rightarrow>
         (case targetCollected t of
            Inl e \<Rightarrow> Inl e
          | Inr c \<Rightarrow>
              Inr \<lparr>js_name = nm, js_variantsCount = targetVariantCount t,
                   js_componentPropsCount = length (order c),
                   js_componentProps = map (defs c) (order c),
                   js_prettyComponentProps = map (\<lambda>k. prettyOf nodeById k (defs c k)) (order c)\<rparr>))"

definition buttonTarget :: Target where
  "buttonTarget = \<lparr>target_set = Some (buttonSet\<lparr>set_children := replicate 105 (Component buttonComponent)\<rparr>),
                   target_component = None\<rparr>"

text \<open>
  A node of the scene as \<open>resolveTargetFromNodeAsync\<close> reads it: its type, its \<open>parent\<close>
  and, for an instance, what \<open>getMainComponentAsync\<close> yields (the main component with its
  own parent, or \<open>null\<close>).
\<close>

datatype SceneNode =
    SetNode ComponentSetNode
  | CompNode ComponentNode "SceneNode option"
  | InstanceNode "(ComponentNode \<times> SceneNode option) option" "SceneNode option"
  | OtherNode "SceneNode option"

definition noTarget :: Target where
  "noTarget = \<lparr>target_set = None, target_component = None\<rparr>"

definition setTarget :: "ComponentSetNode \<Rightarrow> Target" where
  "setTarget s = \<lparr>target_set = Some s, target_component = None\<rparr>"

definition componentTarget :: "ComponentNode \<Rightarrow> Target" where
  "componentTarget c = \<lparr>target_set = None, target_component = Some c\<rparr>"

definition underSet :: "ComponentNode \<Rightarrow> SceneNode option \<Rightarrow> Target" where
  "underSet c p = (case p of Some (SetNode s) \<Rightarrow> setTarget s | _ \<Rightarrow> componentTarget c)"

fun resolveTargetFromNodeAsync :: "SceneNode \<Rightarrow> Target" where
  "resolveTargetFromNodeAsync (SetNode s) = setTarget s"
| "resolveTargetFromNodeAsync (CompNode c p) = underSet c p"
| "resolveTargetFromNodeAsync (InstanceNode main p) =
     (case main of
        Some (c, mp) \<Rightarrow> underSet c mp
      | None \<Rightarrow> (case p of None \<Rightarrow> noTarget | Some q \<Rightarrow> resolveTargetFromNodeAsync q))"
| "resolveTargetFromNodeAsync (OtherNode p) =
     (case p of None \<Rightarrow> noTarget | Some q \<Rightarrow> resolveTargetFromNodeAsync q)"

fun resolveFromSelectionAsync :: "SceneNode list \<Rightarrow> Target" where
  "resolveFromSelectionAsync [] = noTarget"
| "resolveFromSelectionAsync (n # ns) =
     (let t = resolveTargetFromNodeAsync n
      in if target_set t \<noteq> None \<or> target_component t \<noteq> None then t else resolveFromSelectionAsync ns)"

section \<open>The backend: host, state, events\<close>

datatype Format = MD | JSON

text \<open>
  The host at the time of a request: the current selection, the node lookup, the
  document's name, the component sets \<open>figma.root.findAll\<close> finds, and whether
  \<open>loadAllPagesAsync\<close> resolves.
\<close>

record Host =
  h_selection :: "SceneNode list"
  h_nodeById :: "string \<Rightarrow> Lookup"
  h_rootName :: string
  h_componentSets :: "ComponentSetNode list"
  h_pagesLoad :: bool

text \<open>The module's variables \<open>__exportScanCache\<close>, \<open>__exportScanFormat\<close>, \<open>__busy\<close>, \<open>__scanAllowed\<close>.\<close>

record Backend =
  exportScanCache :: "ComponentSetNode list"
  exportScanFormat :: "Format option"
  busy :: bool
  scanAllowed :: bool

definition initialBackend :: Backend where
  "initialBackend = \<lparr>exportScanCache = [], exportScanFormat = None, busy = False, scanAllowed = False\<rparr>"

text \<open>One entry of an aggregate: a target's document, or the placeholder of a failure.\<close>

datatype BatchItem = Parsed JsonSummary | Failed string string

record JsonAggregate =
  agg_document :: string
  agg_count :: nat
  agg_items :: "BatchItem list"

datatype Output = EmptyOutput | MdOutput string | JsonOutput JsonSummary

datatype Content = MdContent string | JsonContent JsonAggregate

datatype StatusMsg =
    BackendReady | NoValidSelection | SelectionDetected | SelectionChanged
  | ScanFailed js_error | GenerateFailed js_error
  | Generating | PleaseSelect | Generated | ErrorWhileGenerating js_error
  | ExportReadyJson | NoComponentSetsFound
  | GeneratingMarkdownFor nat | GeneratingJsonFor nat | Skipped string
  | MarkdownReady | JsonReady
  | GeneratedMd | FailedMd | GeneratedJson | FailedJson | SelectSomething
  | ExportMdFailed | ExportJsonFailed
  | NothingToCopy | CopyReady | CopyFailed

text \<open>
  What a request does, in order: the messages it posts to the UI (one event per call of
  \<open>post\<close> or \<open>postMessage\<close>; the camelCase alias that \<open>post\<close> itself sends after a
  hyphenated type carries the same payload and is not listed; file names and MIME types
  are left out), the host calls of a workspace scan, the writes of the two flags, and an
  exception that leaves the handler. \<open>SelectionInfo\<close> is \<open>post('selection-info', ...)\<close> and
  \<open>SelectionInfoCamel\<close> is the separate call \<open>post('selectionInfo', ...)\<close> that follows it.
\<close>

datatype Event =
    Status StatusMsg bool
  | BusyMsg bool
  | SelectionInfo string nat nat
  | SelectionInfoCamel string nat nat
  | GenerationResult "Format option" Output
  | ScanStart nat
  | SetsCount nat
  | ScanTick nat nat string
  | ScanComplete nat Format
  | GenStart nat
  | GenTick nat nat string
  | GenComplete Content Format
  | Progress nat nat string
  | DownloadText Content
  | DownloadPayload string
  | CopyPayload Output Output
  | HostLoadAllPages
  | HostFindAll
  | SetBusy bool
  | SetScanAllowed bool
  | Uncaught js_error

section \<open>Streaming scan and generation\<close>

definition scanTicks :: "ComponentSetNode list \<Rightarrow> Event list" where
  "scanTicks sets = map (\<lambda>(i, s). ScanTick (i + 1) (length sets) (set_name s)) (enumerate 0 sets)"

text \<open>\<open>streamScan\<close>: the events, and the new state or the exception.\<close>

definition streamScan :: "Host \<Rightarrow> Backend \<Rightarrow> Format \<Rightarrow> Event list \<times> (js_error + Backend)" where
  "streamScan h st format =
     (if \<not> h_pagesLoad h then ([HostLoadAllPages], Inl HostError)
      else (let sets = h_componentSets h in
        ([HostLoadAllPages, HostFindAll, ScanStart (length sets), SetsCount (length sets)] @
         scanTicks sets @ [ScanComplete (length sets) format],
         Inr (st\<lparr>exportScanCache := sets, exportScanFormat := Some format\<rparr>))))"

text \<open>The stanza and the record that stand for a target whose generation threw.\<close>

definition warningSign :: string where
  "warningSign = [CHR 0xE2, CHR 0x9A, CHR 0xA0, CHR 0xEF, CHR 0xB8, CHR 0x8F]"

definition failedStanza :: "string \<Rightarrow> string" where
  "failedStanza nm = ''# '' @ nm @ [CHR 0x0A, CHR 0x0A] @ ''> '' @ warningSign @
     '' Failed to generate this Component Set. Skipped.''"

definition failedItem :: "string \<Rightarrow> BatchItem" where
  "failedItem nm = Failed nm ''Failed to generate this Component Set''"

text \<open>
  The two loops of \<open>streamGenerateAll\<close>, with the index \<open>i\<close>, the list \<open>parts\<close> (or
  \<open>items\<close>) and the events posted so far. \<open>JSON.parse\<close> of what \<open>JSON.stringify\<close> made
  does not throw, so an item is the document itself.
\<close>

fun genLoopMd :: "(string \<Rightarrow> Lookup) \<Rightarrow> nat \<Rightarrow> nat \<Rightarrow> ComponentSetNode list \<Rightarrow>
    string list \<times> Event list \<Rightarrow> string list \<times> Event list" where
  "genLoopMd nodeById tot i [] acc = acc"
| "genLoopMd nodeById tot i (s # rest) (parts, evs) =
     (case toMarkdownTarget nodeById (setTarget s) of
        Inr md \<Rightarrow> genLoopMd nodeById tot (i + 1) rest
                   (parts @ [md], evs @ [GenTick (i + 1) tot (set_name s)])
      | Inl e \<Rightarrow> genLoopMd nodeById tot (i + 1) rest
                   (parts @ [failedStanza (set_name s)], evs @ [GenTick (i + 1) tot (set_name s)]))"

fun genLoopJson :: "(string \<Rightarrow> Lookup) \<Rightarrow> nat \<Rightarrow> nat \<Rightarrow> ComponentSetNode list \<Rightarrow>
    BatchItem list \<times> Event list \<Rightarrow> BatchItem list \<times> Event list" where
  "genLoopJson nodeById tot i [] acc = acc"
| "genLoopJson nodeById tot i (s # rest) (items, evs) =
     (case toJSONSummaryTarget nodeById (setTarget s) of
        Inr j \<Rightarrow> genLoopJson nodeById tot (i + 1) rest
                  (items @ [Parsed j], evs @ [GenTick (i + 1) tot (set_name s)])
      | Inl e \<Rightarrow> genLoopJson nodeById tot (i + 1) rest
                  (items @ [failedItem (set_name s)], evs @ [GenTick (i + 1) tot (set_name s)]))"

definition partsSeparator :: string where
  "partsSeparator = [CHR 0x0A, CHR 0x0A] @ ''---'' @ [CHR 0x0A, CHR 0x0A]"

definition documentName :: "Host \<Rightarrow> string" where
  "documentName h = (if h_rootName h = [] then ''Untitled'' else h_rootName h)"

definition streamGenerateAll :: "Host \<Rightarrow> Backend \<Rightarrow> Format \<Rightarrow> Event list \<times> Backend" where
  "streamGenerateAll h st format =
     (let sets = exportScanCache st in
      (case format of
         MD \<Rightarrow>
           (let (parts, evs) = genLoopMd (h_nodeById h) (length sets) 0 sets ([], [GenStart (length sets)])
            in evs @ [GenComplete (MdContent (joinWith partsSeparator parts)) MD])
       | JSON \<Rightarrow>
           (let (items, evs) = genLoopJson (h_nodeById h) (length sets) 0 sets ([], [GenStart (length sets)])
            in evs @ [GenComplete (JsonContent \<lparr>agg_document = documentName h, agg_count = length items,
                                                 agg_items = items\<rparr>) JSON]),
       st\<lparr>exportScanFormat := None\<rparr>))"

section \<open>Export all\<close>

definition initializingLabel :: string where
  "initializingLabel = ''Initializing'' @ [CHR 0xE2, CHR 0x80, CHR 0xA6]"

fun exportLoopMd :: "(string \<Rightarrow> Lookup) \<Rightarrow> nat \<Rightarrow> nat \<Rightarrow> ComponentSetNode list \<Rightarrow>
    string list \<times> Event list \<Rightarrow> string list \<times> Event list" where
  "exportLoopMd nodeById tot current [] acc = acc"
| "exportLoopMd nodeById tot current (s # rest) (parts, evs) =
     (case toMarkdownTarget nodeById (setTarget s) of
        Inr md \<Rightarrow> exportLoopMd nodeById tot (current + 1) rest
                   (parts @ [md], evs @ [Progress (current + 1) tot (set_name s)])
      | Inl e \<Rightarrow> exportLoopMd nodeById tot (current + 1) rest
                   (parts @ [failedStanza (set_name s)],
                    evs @ [Progress (current + 1) tot (set_name s), Status (Skipped (set_name s)) False]))"

fun exportLoopJson :: "(string \<Rightarrow> Lookup) \<Rightarrow> nat \<Rightarrow> nat \<Rightarrow> ComponentSetNode list \<Rightarrow>
    BatchItem list \<times> Event list \<Rightarrow> BatchItem list \<times> Event list" where
  "exportLoopJson nodeById tot current [] acc = acc"
| "exportLoopJson nodeById tot current (s # rest) (items, evs) =
     (case toJSONSummaryTarget nodeById (setTarget s) of
        Inr j \<Rightarrow> exportLoopJson nodeById tot (current + 1) rest
                  (items @ [Parsed j], evs @ [Progress (current + 1) tot (set_name s)])
      | Inl e \<Rightarrow> exportLoopJson nodeById tot (current + 1) rest
                  (items @ [failedItem (set_name s)],
                   evs @ [Progress (current + 1) tot (set_name s), Status (Skipped (set_name s)) False]))"

text \<open>\<open>exportAllMarkdown\<close> and \<open>exportAllJSON\<close>: the events, and the exception if one escapes.\<close>

definition exportAllMarkdown :: "Host \<Rightarrow> Event list \<times> js_error option" where
  "exportAllMarkdown h =
     (if \<not> h_pagesLoad h then ([HostLoadAllPages], Some HostError)
      else (let sets = h_componentSets h in
        if sets = []
        then ([HostLoadAllPages, HostFindAll, Status NoComponentSetsFound True, DownloadText (MdContent [])], None)
        else (let (parts, evs) = exportLoopMd (h_nodeById h) (length sets) 0 sets
                      ([], [HostLoadAllPages, HostFindAll, Status (GeneratingMarkdownFor (length sets)) False,
                            Progress 0 (length sets) initializingLabel])
              in (evs @ [DownloadText (MdContent (joinWith partsSeparator parts)), Status MarkdownReady False],
                  None))))"

definition exportAllJSON :: "Host \<Rightarrow> Event list \<times> js_error option" where
  "exportAllJSON h =
     (if \<not> h_pagesLoad h then ([HostLoadAllPages], Some HostError)
      else (let sets = h_componentSets h in
        if sets = []
        then ([HostLoadAllPages, HostFindAll, Status NoComponentSetsFound True,
               DownloadText (JsonContent \<lparr>agg_document = documentName h, agg_count = 0, agg_items = []\<rparr>)], None)
        else (let (items, evs) = exportLoopJson (h_nodeById h) (length sets) 0 sets
                      ([], [HostLoadAllPages, HostFindAll, Status (GeneratingJsonFor (length sets)) False,
                            Progress 0 (length sets) initializingLabel])
              in (evs @ [DownloadText (JsonContent \<lparr>agg_document = documentName h, agg_count = length items,
                                                        agg_items = items\<rparr>), Status JsonReady False],
                  None))))"

text \<open>
  The \<open>msg.type\<close>s of \<open>figma.ui.onmessage\<close>. A camelCase alias (\<open>uiReady\<close>, \<open>uiScan\<close>, ...)
  has the same code as the hyphenated type and is the same constructor here; so are
  \<open>generate\<close>/\<open>Generate\<close>, \<open>export-md\<close>/\<open>Export .md\<close>, \<open>export-json\<close>/\<open>Export .json\<close> and the
  copy requests. \<open>UiScan\<close> and \<open>UiGenerateAll\<close> carry \<open>msg.format\<close>; \<open>UiGenerate\<close> carries
  \<open>msg.format\<close> and \<open>msg.options?.format\<close>; \<open>UiExport\<close> carries \<open>msg.payload || ''\<close>.
\<close>

datatype Msg =
    UiReady
  | UiScan "Format option"
  | UiGenerateAll "Format option"
  | UiGenerate "Format option" "Format option"
  | UiExport string
  | UiExportAllMd
  | UiExportAllJson
  | Generate
  | GenerateMd
  | GenerateJson
  | ExportMd
  | ExportJson
  | Copy
  | OtherMsg

definition hasTarget :: "Target \<Rightarrow> bool" where
  "hasTarget t = (target_set t \<noteq> None \<or> target_component t \<noteq> None)"

definition sendSelectionInfoAsync :: "Host \<Rightarrow> Backend \<Rightarrow> Event list \<times> js_error option" where
  "sendSelectionInfoAsync h st =
     (if busy st then ([], None)
      else (let t = resolveFromSelectionAsync (h_selection h) in
        if \<not> hasTarget t
        then ([SelectionInfo ''No selection detected'' 0 0, SelectionInfoCamel ''No selection detected'' 0 0,
               Status NoValidSelection False], None)
        else (case targetName t of
            Inl e \<Rightarrow> ([], Some e)
          | Inr nm \<Rightarrow>
             (case targetCollected t of
                Inl e \<Rightarrow> ([], Some e)
              | Inr c \<Rightarrow> ([SelectionInfo nm (targetVariantCount t) (length (order c)),
                            SelectionInfoCamel nm (targetVariantCount t) (length (order c)),
                            Status SelectionDetected False], None)))))"

text \<open>The body of \<open>ui-generate\<close> after the branch on the scan cache.\<close>

definition generateForSelection :: "Host \<Rightarrow> Format option \<Rightarrow> Event list" where
  "generateForSelection h fmtTop =
     (let t = resolveFromSelectionAsync (h_selection h) in
      if \<not> hasTarget t
      then [Status Generating False, GenerationResult fmtTop EmptyOutput, Status PleaseSelect True]
      else
        (let failed = (\<lambda>e. [GenerationResult fmtTop EmptyOutput, Status (ErrorWhileGenerating e) True]);
             jsonPart = (if fmtTop = Some JSON \<or> fmtTop = None
                         then (case toJSONSummaryTarget (h_nodeById h) t of
                                 Inl e \<Rightarrow> failed e
                               | Inr out \<Rightarrow> [GenerationResult (Some JSON) (JsonOutput out), Status Generated False])
                         else [Status Generated False])
         in [Status Generating False] @
            (if fmtTop = Some MD \<or> fmtTop = None
             then (case toMarkdownTarget (h_nodeById h) t of
                     Inl e \<Rightarrow> failed e
                   | Inr out \<Rightarrow> GenerationResult (Some MD) (MdOutput out) # jsonPart)
             else jsonPart)))"

definition orElse :: "'a option \<Rightarrow> 'a option \<Rightarrow> 'a option" where
  "orElse a b = (case a of Some x \<Rightarrow> Some x | None \<Rightarrow> b)"

text \<open>The two export requests \<open>export-md\<close> and \<open>export-json\<close>.\<close>

definition exportRequest :: "Host \<Rightarrow> Backend \<Rightarrow> Format \<Rightarrow> StatusMsg \<Rightarrow> Event list \<times> Backend" where
  "exportRequest h st format failedMsg =
     (case streamScan h (st\<lparr>busy := True, scanAllowed := True\<rparr>) format of
        (evs, Inl e) \<Rightarrow>
          ([SetBusy True, SetScanAllowed True, BusyMsg True] @ evs @
           [Status failedMsg True, SetBusy False, SetScanAllowed False, BusyMsg False],
           st\<lparr>busy := False, scanAllowed := False\<rparr>)
      | (evs, Inr st1) \<Rightarrow>
          (let (evs2, st2) = streamGenerateAll h st1 format in
           ([SetBusy True, SetScanAllowed True, BusyMsg True] @ evs @ evs2 @
            [SetBusy False, SetScanAllowed False, BusyMsg False],
            st2\<lparr>busy := False, scanAllowed := False\<rparr>)))"

definition onmessage :: "Host \<Rightarrow> Backend \<Rightarrow> Msg \<Rightarrow> Event list \<times> Backend" where
  "onmessage h st msg =
     (case msg of
        UiReady \<Rightarrow>
          (case sendSelectionInfoAsync h st of
             (evs, Some e) \<Rightarrow> (evs @ [Uncaught e], st)
           | (evs, None) \<Rightarrow> (evs @ [Status BackendReady False], st))
      | UiScan fmt \<Rightarrow>
          (if \<not> scanAllowed st then ([], st)
           else (case streamScan h (st\<lparr>busy := True\<rparr>) (case fmt of Some f \<Rightarrow> f | None \<Rightarrow> MD) of
               (evs, Inl e) \<Rightarrow>
                 ([SetBusy True, BusyMsg True] @ evs @ [Status (ScanFailed e) True, SetBusy False, BusyMsg False],
                  st\<lparr>busy := False\<rparr>)
             | (evs, Inr st1) \<Rightarrow>
                 ([SetBusy True, BusyMsg True] @ evs @ [SetBusy False, BusyMsg False], st1\<lparr>busy := False\<rparr>)))
      | UiGenerateAll fmt \<Rightarrow>
          (let format = (case orElse fmt (exportScanFormat st) of Some f \<Rightarrow> f | None \<Rightarrow> MD);
               (evs, st1) = streamGenerateAll h (st\<lparr>busy := True\<rparr>) format
           in ([SetBusy True, BusyMsg True] @ evs @ [SetBusy False, SetScanAllowed False, BusyMsg False],
               st1\<lparr>busy := False, scanAllowed := False\<rparr>))
      | UiGenerate f1 f2 \<Rightarrow>
          (case orElse f1 f2 of
             Some f \<Rightarrow>
               (if exportScanCache st \<noteq> [] then streamGenerateAll h st f
                else (generateForSelection h (Some f), st))
           | None \<Rightarrow> (generateForSelection h None, st))
      | UiExport content \<Rightarrow> ([DownloadPayload content, Status ExportReadyJson False], st)
      | UiExportAllMd \<Rightarrow>
          (case exportAllMarkdown h of
             (evs, Some e) \<Rightarrow> (evs @ [Uncaught e], st)
           | (evs, None) \<Rightarrow> (evs, st))
      | UiExportAllJson \<Rightarrow>
          (case exportAllJSON h of
             (evs, Some e) \<Rightarrow> (evs @ [Uncaught e], st)
           | (evs, None) \<Rightarrow> (evs, st))
      | Generate \<Rightarrow>
          (case toMarkdownTarget (h_nodeById h) (resolveFromSelectionAsync (h_selection h)) of
             Inl e \<Rightarrow> ([Status FailedMd True], st)
           | Inr out \<Rightarrow> ([GenerationResult (Some MD) (MdOutput out), Status GeneratedMd False], st))
      | GenerateMd \<Rightarrow>
          (let t = resolveFromSelectionAsync (h_selection h) in
           if \<not> hasTarget t then ([Status SelectSomething True, GenerationResult (Some MD) EmptyOutput], st)
           else (case toMarkdownTarget (h_nodeById h) t of
               Inl e \<Rightarrow> ([Status FailedMd True], st)
             | Inr out \<Rightarrow> ([GenerationResult (Some MD) (MdOutput out), Status GeneratedMd False], st)))
      | GenerateJson \<Rightarrow>
          (let t = resolveFromSelectionAsync (h_selection h) in
           if \<not> hasTarget t then ([Status SelectSomething True, GenerationResult (Some JSON) EmptyOutput], st)
           else (case toJSONSummaryTarget (h_nodeById h) t of
               Inl e \<Rightarrow> ([Status FailedJson True], st)
             | Inr out \<Rightarrow> ([GenerationResult (Some JSON) (JsonOutput out), Status GeneratedJson False], st)))
      | ExportMd \<Rightarrow> exportRequest h st MD ExportMdFailed
      | ExportJson \<Rightarrow> exportRequest h st JSON ExportJsonFailed
      | Copy \<Rightarrow>
          (let t = resolveFromSelectionAsync (h_selection h) in
           if \<not> hasTarget t then ([Status NothingToCopy True, CopyPayload EmptyOutput EmptyOutput], st)
           else (case toMarkdownTarget (h_nodeById h) t of
               Inl e \<Rightarrow> ([Status CopyFailed True], st)
             | Inr md \<Rightarrow>
                (case toJSONSummaryTarget (h_nodeById h) t of
                   Inl e \<Rightarrow> ([Status CopyFailed True], st)
                 | Inr js \<Rightarrow> ([CopyPayload (MdOutput md) (JsonOutput js), Status CopyReady False], st))))
      | OtherMsg \<Rightarrow> ([], st))"

text \<open>The \<open>selectionchange\<close> listener.\<close>

definition onSelectionChange :: "Host \<Rightarrow> Backend \<Rightarrow> Event list" where
  "onSelectionChange h st =
     (if busy st then []
      else (case sendSelectionInfoAsync h st of
          (evs, Some e) \<Rightarrow> Status SelectionChanged False # evs @ [Uncaught e]
        | (evs, None) \<Rightarrow> Status SelectionChanged False # evs))"

text \<open>Hosts for the examples.\<close>

definition chipHost :: Host where
  "chipHost = \<lparr>h_selection = [InstanceNode (Some (buttonComponent, None)) None], h_nodeById = iconNodes,
               h_rootName = ''Library'', h_componentSets = [hasIconSet], h_pagesLoad = True\<rparr>"

definition prettyDefaultsOf :: "js_error + JsonSummary \<Rightarrow> js_error + jsval option list" where
  "prettyDefaultsOf r = (case r of Inl e \<Rightarrow> Inl e | Inr j \<Rightarrow> Inr (map p_default (js_prettyComponentProps j)))"

definition looseHost :: Host where
  "looseHost = \<lparr>h_selection = [InstanceNode (Some (buttonComponent, None)) None], h_nodeById = iconNodes,
               h_rootName = ''Library'', h_componentSets = [], h_pagesLoad = True\<rparr>"

section \<open>Reading a batch\<close>

text \<open>
  Reading a batch: whether the generation of a set throws; what one iteration of a loop
  appends; the documents of the sets whose generation succeeds, in order; the contents
  a trace completes or downloads; its ticks.
\<close>

definition generationThrows :: "(string \<Rightarrow> Lookup) \<Rightarrow> ComponentSetNode \<Rightarrow> bool" where
  "generationThrows nodeById s =
     (isl (toMarkdownTarget nodeById (setTarget s)) \<or> isl (toJSONSummaryTarget nodeById (setTarget s)))"

definition markdownPart :: "(string \<Rightarrow> Lookup) \<Rightarrow> ComponentSetNode \<Rightarrow> string" where
  "markdownPart nodeById s =
     (case toMarkdownTarget nodeById (setTarget s) of Inr md \<Rightarrow> md | Inl e \<Rightarrow> failedStanza (set_name s))"

definition jsonItem :: "(string \<Rightarrow> Lookup) \<Rightarrow> ComponentSetNode \<Rightarrow> BatchItem" where
  "jsonItem nodeById s =
     (case toJSONSummaryTarget nodeById (setTarget s) of Inr j \<Rightarrow> Parsed j | Inl e \<Rightarrow> failedItem (set_name s))"

definition markdownDocs :: "(string \<Rightarrow> Lookup) \<Rightarrow> ComponentSetNode list \<Rightarrow> string list" where
  "markdownDocs nodeById sets =
     List.map_filter (\<lambda>s. case toMarkdownTarget nodeById (setTarget s) of Inr md \<Rightarrow> Some md | Inl e \<Rightarrow> None) sets"

definition jsonDocs :: "(string \<Rightarrow> Lookup) \<Rightarrow> ComponentSetNode list \<Rightarrow> BatchItem list" where
  "jsonDocs nodeById sets =
     List.map_filter (\<lambda>s. case toJSONSummaryTarget nodeById (setTarget s) of Inr j \<Rightarrow> Some (Parsed j) | Inl e \<Rightarrow> None) sets"

definition genCompleteContents :: "Event list \<Rightarrow> Content list" where
  "genCompleteContents evs = List.map_filter (\<lambda>e. case e of GenComplete c f \<Rightarrow> Some c | _ \<Rightarrow> None) evs"

definition downloadContents :: "Event list \<Rightarrow> Content list" where
  "downloadContents evs = List.map_filter (\<lambda>e. case e of DownloadText c \<Rightarrow> Some c | _ \<Rightarrow> None) evs"

definition tickEvents :: "Event list \<Rightarrow> Event list" where
  "tickEvents evs = filter (\<lambda>e. case e of GenTick i n x \<Rightarrow> True | Progress i n x \<Rightarrow> 0 < i | _ \<Rightarrow> False) evs"

definition genTicksFrom :: "nat \<Rightarrow> nat \<Rightarrow> ComponentSetNode list \<Rightarrow> Event list" where
  "genTicksFrom i tot sets = map (\<lambda>(k, s). GenTick (k + 1) tot (set_name s)) (enumerate i sets)"

definition progressTicksFrom :: "nat \<Rightarrow> nat \<Rightarrow> ComponentSetNode list \<Rightarrow> Event list" where
  "progressTicksFrom i tot sets = map (\<lambda>(k, s). Progress (k + 1) tot (set_name s)) (enumerate i sets)"

text \<open>A batch of three sets of which the second cannot be read.\<close>

definition brokenSet :: ComponentSetNode where
  "brokenSet = \<lparr>set_name = ''Broken'', set_defs = GetterThrows, set_children = []\<rparr>"

definition batchHost :: Host where
  "batchHost = \<lparr>h_selection = [], h_nodeById = iconNodes, h_rootName = ''Library'',
                 h_componentSets = [hasIconSet, brokenSet, iconFirstSet], h_pagesLoad = True\<rparr>"

definition batchState :: Backend where
  "batchState = initialBackend\<lparr>exportScanCache := [hasIconSet, brokenSet, iconFirstSet]\<rparr>"

section \<open>Reading a trace of a request\<close>

text \<open>The generation results a trace posts, and hosts for the examples.\<close>

definition generationResults :: "Event list \<Rightarrow> (Format option \<times> Output) list" where
  "generationResults evs =
     List.map_filter (\<lambda>e. case e of GenerationResult f out \<Rightarrow> Some (f, out) | _ \<Rightarrow> None) evs"

definition tagComponent :: ComponentNode where
  "tagComponent = \<lparr>comp_name = ''Tag'', comp_defs = Undefined\<rparr>"

definition tagHost :: Host where
  "tagHost = \<lparr>h_selection = [OtherNode (Some (CompNode tagComponent None))], h_nodeById = iconNodes,
               h_rootName = ''Library'', h_componentSets = [hasIconSet], h_pagesLoad = True\<rparr>"

definition tagMarkdown :: string where
  "tagMarkdown = joinWith [CHR 0x0A]
     [''# Tag'', '''', ''## Overview'', ''- Variants: 1'', ''- Component Properties: 0'', '''',
      ''## Component Props'']"



section \<open>The order is a permutation of the keys\<close>

lemma hasMapOf_aux:
  "(\<forall>n k. m n = Some k \<longrightarrow> P n k) \<Longrightarrow>
   (\<forall>it\<in>set its. take 4 (it_name it) = ''Has '' \<longrightarrow> P (drop 4 (it_name it)) (it_key it)) \<Longrightarrow>
   foldl (\<lambda>m it. if take 4 (it_name it) = ''Has '' then m(drop 4 (it_name it) \<mapsto> it_key it) else m) m its n = Some k
   \<Longrightarrow> P n k"
proof (induction its arbitrary: m)
  case Nil
  then show ?case by simp
next
  case (Cons it its)
  show ?case
  proof (rule Cons.IH[OF _ _ ])
    show "\<forall>n k. (if take 4 (it_name it) = ''Has '' then m(drop 4 (it_name it) \<mapsto> it_key it) else m) n = Some k \<longrightarrow> P n k"
      using Cons.prems(1,2) by (auto split: if_splits)
    show "\<forall>it\<in>set its. take 4 (it_name it) = ''Has '' \<longrightarrow> P (drop 4 (it_name it)) (it_key it)"
      using Cons.prems(2) by simp
    show "foldl (\<lambda>m it. if take 4 (it_name it) = ''Has '' then m(drop 4 (it_name it) \<mapsto> it_key it) else m)
       (if take 4 (it_name it) = ''Has '' then m(drop 4 (it_name it) \<mapsto> it_key it) else m) its n = Some k"
      using Cons.prems(3) by simp
  qed
qed

lemma hasMapOf_Some:
  assumes "hasMapOf others n = Some k"
  shows "\<exists>it\<in>set others. it_key it = k \<and> it_name it = ''Has '' @ n"
proof -
  let ?P = "\<lambda>n k. \<exists>it\<in>set others. it_key it = k \<and> it_name it = ''Has '' @ n"
  have "?P n k"
  proof (rule hasMapOf_aux[where P = ?P and m = Map.empty and its = others])
    show "\<forall>n k. Map.empty n = Some k \<longrightarrow> ?P n k" by simp
    show "\<forall>it\<in>set others. take 4 (it_name it) = ''Has '' \<longrightarrow> ?P (drop 4 (it_name it)) (it_key it)"
    proof (intro ballI impI)
      fix it assume a: "it \<in> set others" "take 4 (it_name it) = ''Has ''"
      have "it_name it = take 4 (it_name it) @ drop 4 (it_name it)" by simp
      with a show "?P (drop 4 (it_name it)) (it_key it)" by metis
    qed
    show "foldl (\<lambda>m it. if take 4 (it_name it) = ''Has '' then m(drop 4 (it_name it) \<mapsto> it_key it) else m) Map.empty others n = Some k"
      using assms by (simp add: hasMapOf_def)
  qed
  then show ?thesis .
qed

text \<open>The loop invariant of pairLoop.\<close>

lemma pairLoop_inv:
  assumes "taken = set acc" "distinct acc"
    and "\<And>n k. hm n = Some k \<Longrightarrow> (k \<in> taken \<or> k \<in> it_key ` set its) \<and> cleanPropName k = ''Has '' @ n"
    and "\<And>it. it \<in> set its \<Longrightarrow> it_name it = cleanPropName (it_key it)"
  shows "distinct (pairLoop hm its taken acc) \<and>
         set (pairLoop hm its taken acc) = set acc \<union> it_key ` set its"
  using assms
proof (induction its arbitrary: taken acc)
  case Nil
  then show ?case by simp
next
  case (Cons it its)
  have nm: "it_name it = cleanPropName (it_key it)" using Cons.prems(4) by simp
  show ?case
  proof (cases "it_key it \<in> taken")
    case True
    have "distinct (pairLoop hm its taken acc) \<and> set (pairLoop hm its taken acc) = set acc \<union> it_key ` set its"
    proof (rule Cons.IH[OF Cons.prems(1,2)])
      fix n k assume "hm n = Some k"
      from Cons.prems(3)[OF this] True
      show "(k \<in> taken \<or> k \<in> it_key ` set its) \<and> cleanPropName k = ''Has '' @ n" by auto
    next
      fix i assume "i \<in> set its" then show "it_name i = cleanPropName (it_key i)"
        using Cons.prems(4) by simp
    qed
    with True Cons.prems(1) show ?thesis by auto
  next
    case notin: False
    show ?thesis
    proof (cases "hm (it_name it)")
      case None
      have "distinct (pairLoop hm its (insert (it_key it) taken) (acc @ [it_key it])) \<and>
            set (pairLoop hm its (insert (it_key it) taken) (acc @ [it_key it])) = set (acc @ [it_key it]) \<union> it_key ` set its"
      proof (rule Cons.IH)
        show "insert (it_key it) taken = set (acc @ [it_key it])" using Cons.prems(1) by simp
        show "distinct (acc @ [it_key it])" using Cons.prems(1,2) notin by simp
      next
        fix n k assume "hm n = Some k"
        from Cons.prems(3)[OF this]
        show "(k \<in> insert (it_key it) taken \<or> k \<in> it_key ` set its) \<and> cleanPropName k = ''Has '' @ n" by auto
      next
        fix i assume "i \<in> set its" then show "it_name i = cleanPropName (it_key i)"
          using Cons.prems(4) by simp
      qed
      with None notin show ?thesis by auto
    next
      case (Some hasKey)
      from Cons.prems(3)[OF Some] have hk: "hasKey \<in> taken \<or> hasKey \<in> it_key ` set (it # its)"
        and hn: "cleanPropName hasKey = ''Has '' @ it_name it" by auto
      have neq: "hasKey \<noteq> it_key it" using hn nm by auto
      show ?thesis
      proof (cases "hasKey \<noteq> [] \<and> hasKey \<notin> taken")
        case True
        have hin: "hasKey \<in> it_key ` set its" using hk True neq by auto
        have "distinct (pairLoop hm its (insert (it_key it) (insert hasKey taken)) (acc @ [hasKey, it_key it])) \<and>
            set (pairLoop hm its (insert (it_key it) (insert hasKey taken)) (acc @ [hasKey, it_key it]))
              = set (acc @ [hasKey, it_key it]) \<union> it_key ` set its"
        proof (rule Cons.IH)
          show "insert (it_key it) (insert hasKey taken) = set (acc @ [hasKey, it_key it])"
            using Cons.prems(1) by auto
          show "distinct (acc @ [hasKey, it_key it])" using Cons.prems(1,2) notin True neq by simp
        next
          fix n k assume "hm n = Some k"
          from Cons.prems(3)[OF this]
          show "(k \<in> insert (it_key it) (insert hasKey taken) \<or> k \<in> it_key ` set its) \<and> cleanPropName k = ''Has '' @ n" by auto
        next
          fix i assume "i \<in> set its" then show "it_name i = cleanPropName (it_key i)"
            using Cons.prems(4) by simp
        qed
        with Some notin True hin show ?thesis by auto
      next
        case False
        have "distinct (pairLoop hm its (insert (it_key it) taken) (acc @ [it_key it])) \<and>
            set (pairLoop hm its (insert (it_key it) taken) (acc @ [it_key it])) = set (acc @ [it_key it]) \<union> it_key ` set its"
        proof (rule Cons.IH)
          show "insert (it_key it) taken = set (acc @ [it_key it])" using Cons.prems(1) by simp
          show "distinct (acc @ [it_key it])" using Cons.prems(1,2) notin by simp
        next
          fix n k assume "hm n = Some k"
          from Cons.prems(3)[OF this]
          show "(k \<in> insert (it_key it) taken \<or> k \<in> it_key ` set its) \<and> cleanPropName k = ''Has '' @ n" by auto
        next
          fix i assume "i \<in> set its" then show "it_name i = cleanPropName (it_key i)"
            using Cons.prems(4) by simp
        qed
        with Some notin False show ?thesis by auto
      qed
    qed
  qed
qed

lemma itemsOf_keys: "map it_key (itemsOf ds) = map fst ds"
  by (induction ds) (auto simp: itemsOf_def)

lemma itemsOf_name: "it \<in> set (itemsOf ds) \<Longrightarrow> it_name it = cleanPropName (it_key it)"
  by (auto simp: itemsOf_def)

lemma pairLoop_others:
  assumes "\<And>it. it \<in> set others \<Longrightarrow> it_name it = cleanPropName (it_key it)"
  shows "distinct (pairLoop (hasMapOf others) others {} []) \<and>
         set (pairLoop (hasMapOf others) others {} []) = it_key ` set others"
proof -
  have "distinct (pairLoop (hasMapOf others) others {} []) \<and>
        set (pairLoop (hasMapOf others) others {} []) = set [] \<union> it_key ` set others"
  proof (rule pairLoop_inv)
    show "{} = set []" by simp
    show "distinct []" by simp
  next
    fix n k assume h: "hasMapOf others n = Some k"
    from hasMapOf_Some[OF h] obtain it where it: "it \<in> set others" "it_key it = k" "it_name it = ''Has '' @ n"
      by blast
    with assms[OF it(1)] show "(k \<in> {} \<or> k \<in> it_key ` set others) \<and> cleanPropName k = ''Has '' @ n"
      by auto
  next
    fix it assume "it \<in> set others" then show "it_name it = cleanPropName (it_key it)" by (rule assms)
  qed
  then show ?thesis by simp
qed

lemma heuristicKeys_set: "set (heuristicKeys ds) = fst ` set ds"
proof -
  let ?others = "filter (\<lambda>i. it_type i \<noteq> VARIANT) (itemsOf ds)"
  have "set (pairLoop (hasMapOf ?others) ?others {} []) = it_key ` set ?others"
    using pairLoop_others[of ?others] itemsOf_name by auto
  then have "set (heuristicKeys ds) = it_key ` set (itemsOf ds)"
    by (auto simp: heuristicKeys_def Let_def)
  also have "\<dots> = set (map it_key (itemsOf ds))" by simp
  also have "\<dots> = fst ` set ds" by (simp only: itemsOf_keys set_map)
  finally show ?thesis .
qed

lemma heuristicKeys_distinct:
  assumes "distinct (map fst ds)"
  shows "distinct (heuristicKeys ds)"
proof -
  let ?items = "itemsOf ds"
  let ?others = "filter (\<lambda>i. it_type i \<noteq> VARIANT) ?items"
  let ?vs = "filter (\<lambda>i. it_type i = VARIANT) ?items"
  have dk: "distinct (map it_key ?items)" using assms by (simp only: itemsOf_keys)
  have po: "distinct (pairLoop (hasMapOf ?others) ?others {} [])"
    "set (pairLoop (hasMapOf ?others) ?others {} []) = it_key ` set ?others"
    using pairLoop_others[of ?others] itemsOf_name by auto
  have dv: "distinct (map it_key ?vs)" using dk by (rule distinct_map_filter)
  have disj: "it_key ` set ?vs \<inter> it_key ` set ?others = {}"
  proof (rule ccontr)
    assume "it_key ` set ?vs \<inter> it_key ` set ?others \<noteq> {}"
    then obtain a b where ab: "a \<in> set ?items" "b \<in> set ?items" "it_type a = VARIANT"
      "it_type b \<noteq> VARIANT" "it_key a = it_key b" by auto
    from dk have "inj_on it_key (set ?items)" by (simp add: distinct_map)
    with ab have "a = b" by (auto dest: inj_onD)
    with ab show False by simp
  qed
  show ?thesis using dv po disj by (auto simp: heuristicKeys_def Let_def)
qed

lemma heuristicKeys_mset:
  assumes "distinct (map fst ds)"
  shows "mset (heuristicKeys ds) = mset (map fst ds)"
proof -
  have "set (heuristicKeys ds) = set (map fst ds)" by (simp add: heuristicKeys_set)
  with heuristicKeys_distinct[OF assms] assms show ?thesis
    by (simp only: set_eq_iff_mset_eq_distinct)
qed

lemma fillDefs_total:
  assumes "set keys \<subseteq> fst ` set ds"
  shows "\<exists>c'. fillDefs mk ds keys c = Inr c' \<and> order c' = order c @ keys \<and>
           dom (defs c') = dom (defs c) \<union> set keys"
  using assms
proof (induction keys arbitrary: c)
  case Nil
  then show ?case by simp
next
  case (Cons key keys)
  from Cons.prems have "key \<in> fst ` set ds" by simp
  then obtain d where d: "map_of ds key = Some d"
    by (metis domD dom_map_of_conv_image_fst)
  let ?c = "\<lparr>defs = (defs c)(key \<mapsto> mk key d), order = order c @ [key]\<rparr>"
  from Cons.prems have "set keys \<subseteq> fst ` set ds" by simp
  from Cons.IH[OF this, of ?c] obtain c' where
    c': "fillDefs mk ds keys ?c = Inr c'" "order c' = order ?c @ keys"
        "dom (defs c') = dom (defs ?c) \<union> set keys" by blast
  then show ?case using d by auto
qed

lemma mergeDefs_total:
  assumes "set keys \<subseteq> fst ` set ds" "seen = set (order c)" "distinct (order c)"
    "dom (defs c) \<subseteq> set (order c)"
  shows "\<exists>seen' c'. mergeDefs ds keys (seen, c) = Inr (seen', c') \<and> seen' = set (order c') \<and>
           distinct (order c') \<and> set (order c') = set (order c) \<union> set keys \<and>
           dom (defs c') \<subseteq> set (order c')"
  using assms
proof (induction keys arbitrary: seen c)
  case Nil
  then show ?case by simp
next
  case (Cons key keys)
  from Cons.prems have "key \<in> fst ` set ds" by simp
  then obtain d where d: "map_of ds key = Some d"
    by (metis domD dom_map_of_conv_image_fst)
  let ?c = "\<lparr>defs = (if outTruthy (defs c) key then defs c else (defs c)(key \<mapsto> liteOfSet key d)),
              order = (if key \<in> seen then order c else order c @ [key])\<rparr>"
  have 1: "set keys \<subseteq> fst ` set ds" using Cons.prems by simp
  have 2: "insert key seen = set (order ?c)" using Cons.prems(2) by auto
  have 3: "distinct (order ?c)" using Cons.prems(2,3) by auto
  have 4: "dom (defs ?c) \<subseteq> set (order ?c)" using Cons.prems(2,4) by auto
  from Cons.IH[OF 1 2 3 4] obtain seen' c' where
    r: "mergeDefs ds keys (insert key seen, ?c) = Inr (seen', c')" "seen' = set (order c')"
       "distinct (order c')" "set (order c') = set (order ?c) \<union> set keys"
       "dom (defs c') \<subseteq> set (order c')" by blast
  have "set (order c') = set (order c) \<union> set (key # keys)" using r(4) Cons.prems(2) by auto
  with r d show ?case by auto
qed

lemma legacyLoop_total:
  assumes "\<forall>m\<in>set comps. comp_defs m \<noteq> GetterThrows" "seen = set (order c)" "distinct (order c)"
    "dom (defs c) \<subseteq> set (order c)"
  shows "\<exists>seen' c'. legacyLoop comps (seen, c) = Inr (seen', c') \<and> seen' = set (order c') \<and>
           distinct (order c') \<and> set (order c') = set (order c) \<union> definedKeys comps \<and>
           dom (defs c') \<subseteq> set (order c')"
  using assms
proof (induction comps arbitrary: seen c)
  case Nil
  then show ?case by simp
next
  case (Cons m comps)
  have nt: "\<forall>m\<in>set comps. comp_defs m \<noteq> GetterThrows" using Cons.prems(1) by simp
  show ?case
  proof (cases "comp_defs m")
    case GetterThrows
    with Cons.prems(1) show ?thesis by simp
  next
    case Undefined
    from Cons.IH[OF nt Cons.prems(2,3,4)] Undefined show ?thesis by simp
  next
    case (Defined ds)
    have "set (heuristicKeys ds) \<subseteq> fst ` set ds" by (simp add: heuristicKeys_set)
    from mergeDefs_total[OF this Cons.prems(2,3,4)] obtain s1 c1 where
      m: "mergeDefs ds (heuristicKeys ds) (seen, c) = Inr (s1, c1)" "s1 = set (order c1)"
         "distinct (order c1)" "set (order c1) = set (order c) \<union> set (heuristicKeys ds)"
         "dom (defs c1) \<subseteq> set (order c1)" by blast
    from Cons.IH[OF nt m(2,3,5)] obtain s2 c2 where
      l: "legacyLoop comps (s1, c1) = Inr (s2, c2)" "s2 = set (order c2)" "distinct (order c2)"
         "set (order c2) = set (order c1) \<union> definedKeys comps" "dom (defs c2) \<subseteq> set (order c2)"
      by blast
    have "set (order c2) = set (order c) \<union> definedKeys (m # comps)"
      using l(4) m(4) Defined by (auto simp: heuristicKeys_set)
    with l m(1) Defined show ?thesis by auto
  qed
qed

lemma collect_set_order:
  assumes "set_defs s = Defined ds"
  shows "\<exists>c. collectComponentPropsWithOrder s = Inr c \<and> order c = heuristicKeys ds \<and>
           dom (defs c) = set (order c)"
proof -
  have "set (heuristicKeys ds) \<subseteq> fst ` set ds" by (simp add: heuristicKeys_set)
  from fillDefs_total[OF this, of liteOfSet "\<lparr>defs = Map.empty, order = []\<rparr>"]
  show ?thesis using assms by (auto simp: collectComponentPropsWithOrder_def)
qed

lemma collect_component_order:
  assumes "comp_defs cn = Defined ds"
  shows "\<exists>c. collectPropsFromComponent cn = Inr c \<and> order c = heuristicKeys ds \<and>
           dom (defs c) = set (order c)"
proof -
  have "set (heuristicKeys ds) \<subseteq> fst ` set ds" by (simp add: heuristicKeys_set)
  from fillDefs_total[OF this, of liteOfComponent "\<lparr>defs = Map.empty, order = []\<rparr>"]
  show ?thesis using assms by (auto simp: collectPropsFromComponent_def)
qed

lemma collect_legacy_order:
  assumes "set_defs s = Undefined" "\<forall>m\<in>set (componentsOf (set_children s)). comp_defs m \<noteq> GetterThrows"
  shows "\<exists>c. collectComponentPropsWithOrder s = Inr c \<and> distinct (order c) \<and>
           set (order c) = definedKeys (componentsOf (set_children s)) \<and> dom (defs c) \<subseteq> set (order c)"
proof -
  from legacyLoop_total[OF assms(2), of "{}" "\<lparr>defs = Map.empty, order = []\<rparr>"]
  obtain seen' c' where "legacyLoop (componentsOf (set_children s)) ({}, \<lparr>defs = Map.empty, order = []\<rparr>) = Inr (seen', c')"
    "distinct (order c')" "set (order c') = definedKeys (componentsOf (set_children s))"
    "dom (defs c') \<subseteq> set (order c')" by auto
  then show ?thesis using assms(1) by (auto simp: collectComponentPropsWithOrder_def)
qed

text \<open>
  Claim C1. Whatever definitions the collector is given, the order it produces is a
  permutation of their keys: each key once, none left out. For the set-level and the
  single-component paths the keys are those of the definitions object (and the produced
  map has exactly the ordered keys); for the legacy fallback they are the keys the member
  components define, each listed once.
\<close>

theorem collector_order_permutes_keys:
  "(set_defs s = Defined ds \<longrightarrow> distinct (map fst ds) \<longrightarrow>
      (\<exists>c. collectComponentPropsWithOrder s = Inr c \<and> mset (order c) = mset (map fst ds) \<and>
           dom (defs c) = set (order c)))
   \<and> (comp_defs cn = Defined ds' \<longrightarrow> distinct (map fst ds') \<longrightarrow>
      (\<exists>c. collectPropsFromComponent cn = Inr c \<and> mset (order c) = mset (map fst ds') \<and>
           dom (defs c) = set (order c)))
   \<and> (set_defs s' = Undefined \<longrightarrow>
       (\<forall>m\<in>set (componentsOf (set_children s')). comp_defs m \<noteq> GetterThrows) \<longrightarrow>
      (\<exists>c. collectComponentPropsWithOrder s' = Inr c \<and> distinct (order c) \<and>
           set (order c) = definedKeys (componentsOf (set_children s')) \<and>
           dom (defs c) \<subseteq> set (order c)))"
proof (intro conjI impI)
  assume a: "set_defs s = Defined ds" "distinct (map fst ds)"
  from collect_set_order[OF a(1)] heuristicKeys_mset[OF a(2)]
  show "\<exists>c. collectComponentPropsWithOrder s = Inr c \<and> mset (order c) = mset (map fst ds) \<and>
           dom (defs c) = set (order c)" by auto
next
  assume a: "comp_defs cn = Defined ds'" "distinct (map fst ds')"
  from collect_component_order[OF a(1)] heuristicKeys_mset[OF a(2)]
  show "\<exists>c. collectPropsFromComponent cn = Inr c \<and> mset (order c) = mset (map fst ds') \<and>
           dom (defs c) = set (order c)" by auto
next
  assume "set_defs s' = Undefined" "\<forall>m\<in>set (componentsOf (set_children s')). comp_defs m \<noteq> GetterThrows"
  then show "\<exists>c. collectComponentPropsWithOrder s' = Inr c \<and> distinct (order c) \<and>
           set (order c) = definedKeys (componentsOf (set_children s')) \<and>
           dom (defs c) \<subseteq> set (order c)" by (rule collect_legacy_order)
qed

theorem collector_order_permutes_keys_witness:
  "(\<exists>c. collectComponentPropsWithOrder buttonSet = Inr c \<and>
        mset (order c) = mset [''Has Left Icon'', ''Left Icon'', ''Text'', ''Size#1'', ''Variant#2''] \<and>
        dom (defs c) = set (order c))
   \<and> (\<exists>c. collectPropsFromComponent buttonComponent = Inr c \<and>
        mset (order c) = mset [''Has Left Icon'', ''Left Icon'', ''Text'', ''Size#1'', ''Variant#2''] \<and>
        dom (defs c) = set (order c))
   \<and> (\<exists>c. collectComponentPropsWithOrder legacyButtonSet = Inr c \<and> distinct (order c) \<and>
        set (order c) = {''Has Left Icon'', ''Left Icon'', ''Text'', ''Size#1'', ''Variant#2''} \<and>
        dom (defs c) \<subseteq> set (order c))"
proof -
  have d: "distinct (map fst buttonDefs)" by (simp add: buttonDefs_def)
  have k: "map fst buttonDefs = [''Has Left Icon'', ''Left Icon'', ''Text'', ''Size#1'', ''Variant#2'']"
    by (simp add: buttonDefs_def)
  have s: "set_defs buttonSet = Defined buttonDefs" by (simp add: buttonSet_def)
  have c: "comp_defs buttonComponent = Defined buttonDefs" by (simp add: buttonComponent_def)
  have l: "set_defs legacyButtonSet = Undefined" by (simp add: legacyButtonSet_def)
  have m: "\<forall>m\<in>set (componentsOf (set_children legacyButtonSet)). comp_defs m \<noteq> GetterThrows"
    by (simp add: legacyButtonSet_def buttonComponent_def)
  have dk: "definedKeys (componentsOf (set_children legacyButtonSet)) =
      {''Has Left Icon'', ''Left Icon'', ''Text'', ''Size#1'', ''Variant#2''}"
    by (simp add: legacyButtonSet_def buttonComponent_def buttonDefs_def)
  from collector_order_permutes_keys[of buttonSet buttonDefs buttonComponent buttonDefs legacyButtonSet]
  show ?thesis using d s c l m by (simp only: k dk simp_thms)
qed

section \<open>Pairing of "Has X" with "X"\<close>








lemma precedes_decompose:
  assumes "precedes a b xs"
  shows "\<exists>as bs. xs = as @ a # bs \<and> b \<in> set bs \<and> a \<notin> set as"
  using assms
proof (induction xs)
  case Nil
  then show ?case by (simp add: precedes_def)
next
  case (Cons x xs)
  show ?case
  proof (cases "x = a")
    case True
    with Cons.prems have "b \<in> set xs" by (simp add: precedes_def)
    with True have "x # xs = [] @ a # xs \<and> b \<in> set xs \<and> a \<notin> set []" by simp
    then show ?thesis by blast
  next
    case False
    with Cons.prems have "precedes a b xs" by (simp add: precedes_def)
    from Cons.IH[OF this] obtain as bs where "xs = as @ a # bs" "b \<in> set bs" "a \<notin> set as" by blast
    with False have "x # xs = (x # as) @ a # bs \<and> b \<in> set bs \<and> a \<notin> set (x # as)" by simp
    then show ?thesis by blast
  qed
qed
















section \<open>Variant keys first\<close>

lemma fillDefs_defs:
  "fillDefs mk ds keys c = Inr c' \<Longrightarrow>
   defs c' k = (if k \<in> set keys then map_option (mk k) (map_of ds k) else defs c k)"
proof (induction keys arbitrary: c)
  case Nil
  then show ?case by simp
next
  case (Cons key keys)
  from Cons.prems obtain d where d: "map_of ds key = Some d"
    by (cases "map_of ds key") auto
  let ?c = "\<lparr>defs = (defs c)(key \<mapsto> mk key d), order = order c @ [key]\<rparr>"
  from Cons.prems d have "fillDefs mk ds keys ?c = Inr c'" by simp
  from Cons.IH[OF this] d show ?case by auto
qed

lemma heuristicKeys_kinds:
  assumes "distinct (map fst ds)"
  shows "\<exists>vs os. heuristicKeys ds = vs @ os \<and>
           (\<forall>k\<in>set vs. map_option d_type (map_of ds k) = Some VARIANT) \<and>
           (\<forall>k\<in>set os. map_option d_type (map_of ds k) \<noteq> Some VARIANT)"
proof -
  let ?others = "filter (\<lambda>i. it_type i \<noteq> VARIANT) (itemsOf ds)"
  let ?vs = "map it_key (filter (\<lambda>i. it_type i = VARIANT) (itemsOf ds))"
  let ?os = "pairLoop (hasMapOf ?others) ?others {} []"
  have os: "set ?os = it_key ` set ?others"
    using pairLoop_others[of ?others] itemsOf_name by auto
  have lk: "\<And>k d. (k, d) \<in> set ds \<Longrightarrow> map_of ds k = Some d"
    using assms by simp
  have 1: "\<forall>k\<in>set ?vs. map_option d_type (map_of ds k) = Some VARIANT"
  proof
    fix k assume "k \<in> set ?vs"
    then obtain d where "(k, d) \<in> set ds" "d_type d = VARIANT" by (auto simp: itemsOf_def)
    with lk show "map_option d_type (map_of ds k) = Some VARIANT" by simp
  qed
  have 2: "\<forall>k\<in>set ?os. map_option d_type (map_of ds k) \<noteq> Some VARIANT"
  proof
    fix k assume "k \<in> set ?os"
    with os obtain d where "(k, d) \<in> set ds" "d_type d \<noteq> VARIANT" by (auto simp: itemsOf_def)
    with lk show "map_option d_type (map_of ds k) \<noteq> Some VARIANT" by simp
  qed
  have "heuristicKeys ds = ?vs @ ?os" by (simp add: heuristicKeys_def Let_def)
  with 1 2 show ?thesis by blast
qed

lemma variantsFirst_split:
  assumes "order c = vs @ os"
    and "\<forall>k\<in>set vs. map_option type (defs c k) = Some VARIANT"
    and "\<forall>k\<in>set os. map_option type (defs c k) \<noteq> Some VARIANT"
  shows "variantsFirst c"
proof -
  let ?f = "\<lambda>k. map_option type (defs c k)"
  have "dropWhile (\<lambda>x. x = Some VARIANT) (map ?f vs @ map ?f os) = dropWhile (\<lambda>x. x = Some VARIANT) (map ?f os)"
    by (rule dropWhile_append2) (use assms(2) in auto)
  moreover have "Some VARIANT \<notin> set (map ?f os)"
  proof
    assume "Some VARIANT \<in> set (map ?f os)"
    then obtain k where "k \<in> set os" "?f k = Some VARIANT" by (metis (mono_tags, lifting) imageE set_map)
    with assms(3) show False by blast
  qed
  ultimately have "Some VARIANT \<notin> set (dropWhile (\<lambda>x. x = Some VARIANT) (map ?f vs @ map ?f os))"
    by (metis set_dropWhileD)
  then show ?thesis by (simp add: variantsFirst_def kindsInOrder_def assms(1))
qed

lemma variantsFirst_fill:
  assumes "distinct (map fst ds)" "fillDefs mk ds (heuristicKeys ds) \<lparr>defs = Map.empty, order = []\<rparr> = Inr c"
    and "\<And>k d. type (mk k d) = d_type d"
  shows "variantsFirst c"
proof -
  from heuristicKeys_kinds[OF assms(1)] obtain vs os where
    s: "heuristicKeys ds = vs @ os"
       "\<forall>k\<in>set vs. map_option d_type (map_of ds k) = Some VARIANT"
       "\<forall>k\<in>set os. map_option d_type (map_of ds k) \<noteq> Some VARIANT" by blast
  have "set (heuristicKeys ds) \<subseteq> fst ` set ds" by (simp add: heuristicKeys_set)
  from fillDefs_total[OF this, of mk "\<lparr>defs = Map.empty, order = []\<rparr>"] assms(2)
  have o: "order c = heuristicKeys ds" by auto
  have k: "\<And>k. k \<in> set (heuristicKeys ds) \<Longrightarrow> map_option type (defs c k) = map_option d_type (map_of ds k)"
    using fillDefs_defs[OF assms(2)] assms(3) by (simp add: option.map_comp comp_def)
  show ?thesis
  proof (rule variantsFirst_split)
    show "order c = vs @ os" using o s(1) by simp
    show "\<forall>k\<in>set vs. map_option type (defs c k) = Some VARIANT" using k s(1,2) by simp
    show "\<forall>k\<in>set os. map_option type (defs c k) \<noteq> Some VARIANT" using k s(1,3) by simp
  qed
qed

text \<open>
  On the set-level and the single-component paths every VARIANT key stands before every
  key of another kind.
\<close>

lemma variants_first_set_and_component:
  assumes "distinct (map fst ds)"
  shows "(set_defs s = Defined ds \<longrightarrow> (\<exists>c. collectComponentPropsWithOrder s = Inr c \<and> variantsFirst c))
       \<and> (comp_defs cn = Defined ds \<longrightarrow> (\<exists>c. collectPropsFromComponent cn = Inr c \<and> variantsFirst c))"
proof (intro conjI impI)
  assume a: "set_defs s = Defined ds"
  from collect_set_order[OF a] obtain c where c: "collectComponentPropsWithOrder s = Inr c" by blast
  then have "fillDefs liteOfSet ds (heuristicKeys ds) \<lparr>defs = Map.empty, order = []\<rparr> = Inr c"
    using a by (simp add: collectComponentPropsWithOrder_def)
  from variantsFirst_fill[OF assms this] have "variantsFirst c" by (simp add: liteOfSet_def)
  with c show "\<exists>c. collectComponentPropsWithOrder s = Inr c \<and> variantsFirst c" by blast
next
  assume a: "comp_defs cn = Defined ds"
  from collect_component_order[OF a] obtain c where c: "collectPropsFromComponent cn = Inr c" by blast
  then have "fillDefs liteOfComponent ds (heuristicKeys ds) \<lparr>defs = Map.empty, order = []\<rparr> = Inr c"
    using a by (simp add: collectPropsFromComponent_def)
  from variantsFirst_fill[OF assms this] have "variantsFirst c" by (simp add: liteOfComponent_def)
  with c show "\<exists>c. collectPropsFromComponent cn = Inr c \<and> variantsFirst c" by blast
qed

text \<open>
  Claim C2 on the legacy fallback. The heuristic runs on each member's keys and the
  results are appended member by member, so a VARIANT key first met on a later member
  lands after the earlier members' keys: for a set without set-level definitions whose
  first member defines the text "Label#1:0" and whose second defines the variant "Size",
  the order is Label, Size.
\<close>

theorem legacy_merge_variant_after_text:
  "orderOf (collectComponentPropsWithOrder legacyMixedSet) = Inr [''Label#1:0'', ''Size'']
   \<and> kindsOf (collectComponentPropsWithOrder legacyMixedSet) = Inr [Some TEXT, Some VARIANT]"
  by (simp add: orderOf_def kindsOf_def kindsInOrder_def collectComponentPropsWithOrder_def
      legacyMixedSet_def heuristicKeys_def itemsOf_def hasMapOf_def cleanPropName_def plainDef_def
      outTruthy_def objectPrototypeMembers_def liteOfSet_def liteDefault_def)

section \<open>The merge of the legacy fallback\<close>

lemma mergeDefs_char:
  assumes "set keys \<subseteq> fst ` set ds" "seen = set (order c)"
    "dom (defs c) = seen - set objectPrototypeMembers"
  shows "\<exists>c'. mergeDefs ds keys (seen, c) = Inr (set (order c'), c') \<and>
           order c' = foldl pushUnseen (order c) keys \<and>
           dom (defs c') = set (order c') - set objectPrototypeMembers \<and>
           (\<forall>k. defs c' k = (case defs c k of Some v \<Rightarrow> Some v
                 | None \<Rightarrow> if k \<in> set objectPrototypeMembers \<or> k \<notin> set keys then None
                           else map_option (liteOfSet k) (map_of ds k)))"
  using assms
proof (induction keys arbitrary: seen c)
  case Nil
  then show ?case by (auto split: option.splits)
next
  case (Cons key keys)
  let ?P = "set objectPrototypeMembers"
  from Cons.prems have "key \<in> fst ` set ds" by simp
  then obtain d where d: "map_of ds key = Some d"
    by (metis domD dom_map_of_conv_image_fst)
  let ?c = "\<lparr>defs = (if outTruthy (defs c) key then defs c else (defs c)(key \<mapsto> liteOfSet key d)),
              order = (if key \<in> seen then order c else order c @ [key])\<rparr>"
  have 1: "set keys \<subseteq> fst ` set ds" using Cons.prems by simp
  have 2: "insert key seen = set (order ?c)" using Cons.prems(2) by auto
  have tr: "outTruthy (defs c) key \<longleftrightarrow> key \<in> seen \<or> key \<in> ?P"
    using Cons.prems(3) by (auto simp: outTruthy_def)
  have 3: "dom (defs ?c) = insert key seen - ?P"
    using Cons.prems(3) tr by auto
  from Cons.IH[OF 1 2 3] obtain c' where
    r: "mergeDefs ds keys (insert key seen, ?c) = Inr (set (order c'), c')"
       "order c' = foldl pushUnseen (order ?c) keys"
       "dom (defs c') = set (order c') - ?P"
       "\<forall>k. defs c' k = (case defs ?c k of Some v \<Rightarrow> Some v
                 | None \<Rightarrow> if k \<in> ?P \<or> k \<notin> set keys then None
                           else map_option (liteOfSet k) (map_of ds k))" by blast
  have a: "mergeDefs ds (key # keys) (seen, c) = Inr (set (order c'), c')" using r(1) d by simp
  have b: "order c' = foldl pushUnseen (order c) (key # keys)"
    using r(2) Cons.prems(2) by (simp add: pushUnseen_def)
  have e: "defs c' k = (case defs c k of Some v \<Rightarrow> Some v
                 | None \<Rightarrow> if k \<in> ?P \<or> k \<notin> set (key # keys) then None
                           else map_option (liteOfSet k) (map_of ds k))" for k
  proof (cases "defs c k")
    case (Some v)
    then have "defs ?c k = Some v" using tr Cons.prems(3) by (auto simp: outTruthy_def)
    with r(4) Some show ?thesis by simp
  next
    case None
    show ?thesis
    proof (cases "k = key")
      case True
      show ?thesis
      proof (cases "key \<in> ?P")
        case True
        with tr have "defs ?c key = defs c key" by simp
        with r(4) None \<open>k = key\<close> True show ?thesis by simp
      next
        case False
        have "key \<notin> seen" using None \<open>k = key\<close> False Cons.prems(3) by auto
        with tr False have "defs ?c key = Some (liteOfSet key d)" by simp
        with r(4) None \<open>k = key\<close> False d show ?thesis by simp
      qed
    next
      case False
      then have "defs ?c k = defs c k" by simp
      with r(4) None False show ?thesis by simp
    qed
  qed
  from a b r(3) e show ?case by blast
qed

lemma legacyLoop_char:
  assumes "\<forall>m\<in>set comps. comp_defs m \<noteq> GetterThrows" "seen = set (order c)"
    "dom (defs c) = seen - set objectPrototypeMembers"
  shows "\<exists>c'. legacyLoop comps (seen, c) = Inr (set (order c'), c') \<and>
           order c' = foldl pushUnseen (order c) (memberKeyOrder comps) \<and>
           dom (defs c') = set (order c') - set objectPrototypeMembers \<and>
           (\<forall>k. defs c' k = (case defs c k of Some v \<Rightarrow> Some v
                 | None \<Rightarrow> if k \<in> set objectPrototypeMembers then None
                           else map_option (liteOfSet k) (firstDefinition comps k)))"
  using assms
proof (induction comps arbitrary: seen c)
  case Nil
  then show ?case by (auto split: option.splits)
next
  case (Cons m comps)
  let ?P = "set objectPrototypeMembers"
  have nt: "\<forall>m\<in>set comps. comp_defs m \<noteq> GetterThrows" using Cons.prems(1) by simp
  show ?case
  proof (cases "comp_defs m")
    case GetterThrows
    with Cons.prems(1) show ?thesis by simp
  next
    case Undefined
    have eqs: "legacyLoop (m # comps) (seen, c) = legacyLoop comps (seen, c)"
      "memberKeyOrder (m # comps) = memberKeyOrder comps"
      "\<And>k. firstDefinition (m # comps) k = firstDefinition comps k"
      using Undefined by simp_all
    show ?thesis unfolding eqs by (rule Cons.IH[OF nt Cons.prems(2,3)])
  next
    case (Defined ds)
    have ks: "set (heuristicKeys ds) = fst ` set ds" by (rule heuristicKeys_set)
    then have "set (heuristicKeys ds) \<subseteq> fst ` set ds" by simp
    from mergeDefs_char[OF this Cons.prems(2,3)] obtain c1 where
      m: "mergeDefs ds (heuristicKeys ds) (seen, c) = Inr (set (order c1), c1)"
         "order c1 = foldl pushUnseen (order c) (heuristicKeys ds)"
         "dom (defs c1) = set (order c1) - ?P"
         "\<forall>k. defs c1 k = (case defs c k of Some v \<Rightarrow> Some v
                 | None \<Rightarrow> if k \<in> ?P \<or> k \<notin> set (heuristicKeys ds) then None
                           else map_option (liteOfSet k) (map_of ds k))" by blast
    from Cons.IH[OF nt refl m(3)] obtain c2 where
      l: "legacyLoop comps (set (order c1), c1) = Inr (set (order c2), c2)"
         "order c2 = foldl pushUnseen (order c1) (memberKeyOrder comps)"
         "dom (defs c2) = set (order c2) - ?P"
         "\<forall>k. defs c2 k = (case defs c1 k of Some v \<Rightarrow> Some v
                 | None \<Rightarrow> if k \<in> ?P then None
                           else map_option (liteOfSet k) (firstDefinition comps k))" by blast
    have a: "legacyLoop (m # comps) (seen, c) = Inr (set (order c2), c2)"
      using Defined m(1) l(1) by simp
    have b: "order c2 = foldl pushUnseen (order c) (memberKeyOrder (m # comps))"
      using Defined m(2) l(2) by simp
    have e: "defs c2 k = (case defs c k of Some v \<Rightarrow> Some v
                 | None \<Rightarrow> if k \<in> ?P then None
                           else map_option (liteOfSet k) (firstDefinition (m # comps) k))" for k
    proof (cases "defs c k")
      case (Some v)
      with m(4) have "defs c1 k = Some v" by simp
      with l(4) Some show ?thesis by simp
    next
      case None
      show ?thesis
      proof (cases "k \<in> ?P")
        case True
        with m(4) None have "defs c1 k = None" by simp
        with l(4) None True show ?thesis by simp
      next
        case False
        show ?thesis
        proof (cases "map_of ds k")
          case N: None
          then have "k \<notin> set (heuristicKeys ds)" using ks
            by (simp add: map_of_eq_None_iff)
          with m(4) None have "defs c1 k = None" by simp
          with l(4) None False N Defined show ?thesis by simp
        next
          case (Some d)
          then have "k \<in> set (heuristicKeys ds)" using ks
            by (metis map_of_eq_None_iff option.distinct(1))
          with m(4) None False Some have "defs c1 k = Some (liteOfSet k d)" by simp
          with l(4) None False Some Defined show ?thesis by simp
        qed
      qed
    qed
    from a b l(3) e show ?thesis by blast
  qed
qed

lemma foldl_pushUnseen_prefix: "\<exists>zs. foldl pushUnseen acc xs = acc @ zs"
proof (induction xs arbitrary: acc)
  case Nil
  show ?case by simp
next
  case (Cons x xs)
  from Cons.IH[of "pushUnseen acc x"] obtain zs where "foldl pushUnseen (pushUnseen acc x) xs = pushUnseen acc x @ zs"
    by blast
  moreover have "\<exists>p. pushUnseen acc x = acc @ p" by (simp add: pushUnseen_def)
  ultimately show ?case by auto
qed

lemma foldl_pushUnseen_set: "set (foldl pushUnseen acc xs) = set acc \<union> set xs"
  by (induction xs arbitrary: acc) (auto simp: pushUnseen_def)

lemma componentsOf_append: "componentsOf (xs @ ys) = componentsOf xs @ componentsOf ys"
  by (induction xs rule: componentsOf.induct) auto

lemma memberKeyOrder_append: "memberKeyOrder (xs @ ys) = memberKeyOrder xs @ memberKeyOrder ys"
  by (induction xs) (auto split: DefsAccess.splits)

lemma firstDefinition_append:
  "firstDefinition (xs @ ys) k = (case firstDefinition xs k of Some d \<Rightarrow> Some d | None \<Rightarrow> firstDefinition ys k)"
  by (induction xs) (auto split: DefsAccess.splits option.splits)

lemma firstDefinition_defined:
  "k \<in> set (memberKeyOrder comps) \<Longrightarrow> firstDefinition comps k \<noteq> None"
proof (induction comps)
  case Nil
  then show ?case by simp
next
  case (Cons m comps)
  show ?case
  proof (cases "comp_defs m")
    case (Defined ds)
    show ?thesis
    proof (cases "map_of ds k")
      case None
      then have "k \<notin> set (heuristicKeys ds)" by (simp add: heuristicKeys_set map_of_eq_None_iff)
      with Cons Defined None show ?thesis by simp
    next
      case (Some d)
      with Defined show ?thesis by simp
    qed
  qed (use Cons in auto)
qed

lemma collect_legacy_char:
  assumes "set_defs s = Undefined"
    and "\<forall>m\<in>set (componentsOf (set_children s)). comp_defs m \<noteq> GetterThrows"
  shows "\<exists>c. collectComponentPropsWithOrder s = Inr c \<and>
       order c = firstOccurrences (memberKeyOrder (componentsOf (set_children s))) \<and>
       (\<forall>k. defs c k = (if k \<in> set objectPrototypeMembers then None
                         else map_option (liteOfSet k) (firstDefinition (componentsOf (set_children s)) k)))"
proof -
  let ?e = "\<lparr>defs = Map.empty, order = []\<rparr>"
  have "dom (defs ?e) = {} - set objectPrototypeMembers" by simp
  from legacyLoop_char[OF assms(2) _ this] obtain c where
    c: "legacyLoop (componentsOf (set_children s)) ({}, ?e) = Inr (set (order c), c)"
       "order c = foldl pushUnseen (order ?e) (memberKeyOrder (componentsOf (set_children s)))"
       "\<forall>k. defs c k = (case defs ?e k of Some v \<Rightarrow> Some v
                 | None \<Rightarrow> if k \<in> set objectPrototypeMembers then None
                           else map_option (liteOfSet k) (firstDefinition (componentsOf (set_children s)) k))"
    by auto
  have "collectComponentPropsWithOrder s = Inr c"
    using assms(1) c(1) by (simp add: collectComponentPropsWithOrder_def)
  moreover have "order c = firstOccurrences (memberKeyOrder (componentsOf (set_children s)))"
    using c(2) by (simp add: firstOccurrences_def)
  moreover have "\<forall>k. defs c k = (if k \<in> set objectPrototypeMembers then None
                         else map_option (liteOfSet k) (firstDefinition (componentsOf (set_children s)) k))"
    using c(3) by simp
  ultimately show ?thesis by blast
qed

text \<open>
  First seen wins in the legacy fallback (no set-level definitions; no member whose
  definitions cannot be read), apart from the keys that name an inherited member of
  \<open>Object.prototype\<close>: the order lists each key at its first occurrence; a stored
  definition is always the one of the first member that defines the key, and every
  ordered key that does not name an inherited member has one; and a further member
  appended after the others changes neither the definition stored for a key already seen
  nor the position of any key already in the order.
\<close>

lemma legacy_merge_first_seen_own_keys:
  assumes "set_defs s = Undefined"
    and "\<forall>m\<in>set (componentsOf (set_children s)). comp_defs m \<noteq> GetterThrows"
  shows "\<exists>c. collectComponentPropsWithOrder s = Inr c \<and>
       order c = firstOccurrences (memberKeyOrder (componentsOf (set_children s))) \<and>
       (\<forall>k v. defs c k = Some v \<longrightarrow>
           map_option (liteOfSet k) (firstDefinition (componentsOf (set_children s)) k) = Some v) \<and>
       (\<forall>k\<in>set (order c). k \<notin> set objectPrototypeMembers \<longrightarrow>
           defs c k \<noteq> None \<and>
           defs c k = map_option (liteOfSet k) (firstDefinition (componentsOf (set_children s)) k)) \<and>
       (\<forall>m. comp_defs m \<noteq> GetterThrows \<longrightarrow>
          (\<exists>c'. collectComponentPropsWithOrder (s\<lparr>set_children := set_children s @ [Component m]\<rparr>) = Inr c' \<and>
                (\<forall>k\<in>set (order c). defs c' k = defs c k) \<and>
                take (length (order c)) (order c') = order c))"
proof -
  let ?comps = "componentsOf (set_children s)"
  let ?P = "set objectPrototypeMembers"
  from collect_legacy_char[OF assms] obtain c where
    c: "collectComponentPropsWithOrder s = Inr c"
       "order c = firstOccurrences (memberKeyOrder ?comps)"
       "\<forall>k. defs c k = (if k \<in> ?P then None else map_option (liteOfSet k) (firstDefinition ?comps k))"
    by blast
  have inorder: "k \<in> set (order c) \<Longrightarrow> firstDefinition ?comps k \<noteq> None" for k
  proof -
    assume "k \<in> set (order c)"
    then have "k \<in> set (memberKeyOrder ?comps)"
      using c(2) by (simp add: firstOccurrences_def foldl_pushUnseen_set)
    then show ?thesis by (rule firstDefinition_defined)
  qed
  have p1: "\<forall>k v. defs c k = Some v \<longrightarrow> map_option (liteOfSet k) (firstDefinition ?comps k) = Some v"
    using c(3) by (auto split: if_splits)
  have p2: "\<forall>k\<in>set (order c). k \<notin> ?P \<longrightarrow>
           defs c k \<noteq> None \<and> defs c k = map_option (liteOfSet k) (firstDefinition ?comps k)"
    using c(3) inorder by auto
  have p3: "\<forall>m. comp_defs m \<noteq> GetterThrows \<longrightarrow>
          (\<exists>c'. collectComponentPropsWithOrder (s\<lparr>set_children := set_children s @ [Component m]\<rparr>) = Inr c' \<and>
                (\<forall>k\<in>set (order c). defs c' k = defs c k) \<and>
                take (length (order c)) (order c') = order c)"
  proof (intro allI impI)
    fix m :: ComponentNode assume m: "comp_defs m \<noteq> GetterThrows"
    let ?s' = "s\<lparr>set_children := set_children s @ [Component m]\<rparr>"
    have cs: "componentsOf (set_children ?s') = ?comps @ [m]" by (simp add: componentsOf_append)
    have u: "set_defs ?s' = Undefined" using assms(1) by simp
    have nt: "\<forall>x\<in>set (componentsOf (set_children ?s')). comp_defs x \<noteq> GetterThrows"
      using assms(2) m by (simp only: cs) auto
    from collect_legacy_char[OF u nt] obtain c' where
      c': "collectComponentPropsWithOrder ?s' = Inr c'"
          "order c' = firstOccurrences (memberKeyOrder (?comps @ [m]))"
          "\<forall>k. defs c' k = (if k \<in> ?P then None else map_option (liteOfSet k) (firstDefinition (?comps @ [m]) k))"
      by (simp only: cs) blast
    have d: "\<forall>k\<in>set (order c). defs c' k = defs c k"
    proof
      fix k assume "k \<in> set (order c)"
      from inorder[OF this] have "firstDefinition (?comps @ [m]) k = firstDefinition ?comps k"
        by (auto simp: firstDefinition_append)
      with c(3) c'(3) show "defs c' k = defs c k" by simp
    qed
    have "order c' = foldl pushUnseen (order c) (memberKeyOrder [m])"
      using c(2) c'(2) by (simp add: firstOccurrences_def memberKeyOrder_append)
    with foldl_pushUnseen_prefix[of "order c" "memberKeyOrder [m]"] obtain zs where
      "order c' = order c @ zs" by auto
    then have "take (length (order c)) (order c') = order c" by simp
    with c'(1) d show "\<exists>c'. collectComponentPropsWithOrder ?s' = Inr c' \<and>
                (\<forall>k\<in>set (order c). defs c' k = defs c k) \<and>
                take (length (order c)) (order c') = order c" by blast
  qed
  from c(1,2) p1 p2 p3 show ?thesis by blast
qed

text \<open>
  A set whose first member defines "Label#1:0" with default "A" and whose later member
  defines it with default "B": the default "A" is kept.
\<close>

lemma legacy_merge_first_seen_example:
  "\<exists>c. collectComponentPropsWithOrder legacyFirstMember = Inr c \<and>
       order c = [''Label#1:0''] \<and>
       defs c ''Label#1:0'' = Some (liteOfSet ''Label#1:0'' (labelDef ''A'')) \<and>
       (\<exists>c'. collectComponentPropsWithOrder legacyBothMembers = Inr c' \<and>
             defs c' ''Label#1:0'' = Some (liteOfSet ''Label#1:0'' (labelDef ''A'')) \<and>
             take (length (order c)) (order c') = order c)"
proof -
  have u: "set_defs legacyFirstMember = Undefined" by (simp add: legacyFirstMember_def)
  have nt: "\<forall>m\<in>set (componentsOf (set_children legacyFirstMember)). comp_defs m \<noteq> GetterThrows"
    by (simp add: legacyFirstMember_def)
  have o: "firstOccurrences (memberKeyOrder (componentsOf (set_children legacyFirstMember))) = [''Label#1:0'']"
    by (simp add: legacyFirstMember_def firstOccurrences_def pushUnseen_def heuristicKeys_def itemsOf_def
        hasMapOf_def cleanPropName_def labelDef_def)
  have f: "firstDefinition (componentsOf (set_children legacyFirstMember)) ''Label#1:0'' = Some (labelDef ''A'')"
    by (simp add: legacyFirstMember_def)
  have np: "''Label#1:0'' \<notin> set objectPrototypeMembers" by (simp add: objectPrototypeMembers_def)
  have lm: "comp_defs laterMember \<noteq> GetterThrows" by (simp add: laterMember_def)
  from legacy_merge_first_seen_own_keys[OF u nt] obtain c where
    c: "collectComponentPropsWithOrder legacyFirstMember = Inr c"
       "order c = firstOccurrences (memberKeyOrder (componentsOf (set_children legacyFirstMember)))"
       "\<forall>k\<in>set (order c). k \<notin> set objectPrototypeMembers \<longrightarrow>
           defs c k \<noteq> None \<and>
           defs c k = map_option (liteOfSet k) (firstDefinition (componentsOf (set_children legacyFirstMember)) k)"
       "\<forall>m. comp_defs m \<noteq> GetterThrows \<longrightarrow>
          (\<exists>c'. collectComponentPropsWithOrder (legacyFirstMember\<lparr>set_children := set_children legacyFirstMember @ [Component m]\<rparr>) = Inr c' \<and>
                (\<forall>k\<in>set (order c). defs c' k = defs c k) \<and>
                take (length (order c)) (order c') = order c)"
    by blast
  have oc: "order c = [''Label#1:0'']" using c(2) o by simp
  have dc: "defs c ''Label#1:0'' = Some (liteOfSet ''Label#1:0'' (labelDef ''A''))"
    using c(3) oc np f by simp
  from c(4) lm obtain c' where
    c': "collectComponentPropsWithOrder legacyBothMembers = Inr c'"
        "\<forall>k\<in>set (order c). defs c' k = defs c k"
        "take (length (order c)) (order c') = order c"
    unfolding legacyBothMembers_def by blast
  have "defs c' ''Label#1:0'' = Some (liteOfSet ''Label#1:0'' (labelDef ''A''))"
    using c'(2) oc dc by simp
  with c(1) oc dc c'(1,3) show ?thesis by blast
qed

text \<open>
  Claim C5 fails on a key that names a member inherited from \<open>Object.prototype\<close>. The
  legacy fallback decides whether to keep a definition by \<open>!out[key]\<close> on a plain object,
  and \<open>out['constructor']\<close> is truthy before anything is stored. For a legacy set whose only
  member defines the VARIANT property "constructor", the first-seen definition exists and
  the key is listed in the order, but no definition is kept for it. The set-level path,
  given the same definitions, stores the entry.
\<close>

theorem legacy_inherited_name_not_stored:
  "firstDefinition (componentsOf (set_children legacyConstructorSet)) ''constructor'' = Some (plainDef VARIANT)
   \<and> orderOf (collectComponentPropsWithOrder legacyConstructorSet) = Inr [''constructor'']
   \<and> storedOf (collectComponentPropsWithOrder legacyConstructorSet) ''constructor'' = Inr None
   \<and> orderOf (collectComponentPropsWithOrder setLevelConstructorSet) = Inr [''constructor'']
   \<and> storedOf (collectComponentPropsWithOrder setLevelConstructorSet) ''constructor''
        = Inr (Some (liteOfSet ''constructor'' (plainDef VARIANT)))"
  by (simp add: collectComponentPropsWithOrder_def legacyConstructorSet_def setLevelConstructorSet_def
      heuristicKeys_def itemsOf_def hasMapOf_def cleanPropName_def plainDef_def outTruthy_def
      objectPrototypeMembers_def orderOf_def storedOf_def)
section \<open>Pairing of "Has X" with "X": the collectors\<close>










text \<open>
  With "Has X" first in the input the two keys need not keep their places either: a
  pair that is pulled together in between moves in front of "Has X".
\<close>

lemma has_first_keys_move:
  "orderOf (collectComponentPropsWithOrder interleavedSet) = Inr [''Has A#3'', ''A#1'', ''Has X#2'', ''X#4'']"
  by (simp add: orderOf_def collectComponentPropsWithOrder_def interleavedSet_def interleavedDefs_def
      heuristicKeys_def itemsOf_def hasMapOf_def cleanPropName_def plainDef_def)

text \<open>
  In the legacy fallback the pairing is done on each member's own keys. When "Icon" is
  first met on one member and "Has Icon" on a later one, "Icon" comes first.
\<close>

lemma legacy_pair_split_across_members:
  "orderOf (collectComponentPropsWithOrder legacySplitPairSet) = Inr [''Icon#1:2'', ''Has Icon#1:0'']"
  by (simp add: orderOf_def collectComponentPropsWithOrder_def legacySplitPairSet_def
      heuristicKeys_def itemsOf_def hasMapOf_def cleanPropName_def plainDef_def outTruthy_def
      objectPrototypeMembers_def)

section \<open>Resolution of preferred references\<close>

lemma referencedIds_Nil: "referencedIds [] = []"
  by (simp add: referencedIds_def)

lemma referencedIds_Cons:
  "referencedIds (item # items) =
     (case extractNodeIdFromPreferred item of
        None \<Rightarrow> referencedIds items
      | Some nid \<Rightarrow> if nid = [] then referencedIds items else nid # referencedIds items)"
  by (simp add: referencedIds_def split: option.splits)

lemma prefLoop_char:
  assumes "ps_seen st = set (ps_names st)"
  shows "ps_names (prefLoop nodeById items st) =
           foldl pushUnseen (ps_names st) (List.map_filter (resolvedName nodeById) (referencedIds items))
       \<and> ps_lookups (prefLoop nodeById items st) = ps_lookups st @ referencedIds items"
  using assms
proof (induction items arbitrary: st)
  case Nil
  show ?case by (simp add: referencedIds_Nil)
next
  case (Cons item items)
  show ?case
  proof (cases "extractNodeIdFromPreferred item")
    case None
    with Cons.IH[OF Cons.prems] show ?thesis by (simp add: referencedIds_Cons)
  next
    case (Some nid)
    show ?thesis
    proof (cases "nid = []")
      case True
      with Some Cons.IH[OF Cons.prems] show ?thesis by (simp add: referencedIds_Cons)
    next
      case ne: False
      have ids: "referencedIds (item # items) = nid # referencedIds items"
        using Some ne by (simp add: referencedIds_Cons)
      show ?thesis
      proof (cases "resolvedName nodeById nid")
        case None
        let ?st = "st\<lparr>ps_lookups := ps_lookups st @ [nid]\<rparr>"
        have step: "prefLoop nodeById (item # items) st = prefLoop nodeById items ?st"
          using Some ne None
          by (auto simp: resolvedName_def withTimeout_def split: Lookup.splits if_splits)
        have "ps_seen ?st = set (ps_names ?st)" using Cons.prems by simp
        from Cons.IH[OF this] show ?thesis
          by (simp only: step ids) (simp add: None)
      next
        case (Some nm)
        then have f: "nodeById nid = Found nm" "nm \<noteq> []"
          by (auto simp: resolvedName_def split: Lookup.splits if_splits)
        show ?thesis
        proof (cases "nm \<in> ps_seen st")
          case True
          let ?st = "st\<lparr>ps_lookups := ps_lookups st @ [nid]\<rparr>"
          have step: "prefLoop nodeById (item # items) st = prefLoop nodeById items ?st"
            using \<open>extractNodeIdFromPreferred item = Some nid\<close> ne f True by (simp add: withTimeout_def)
          have "ps_seen ?st = set (ps_names ?st)" using Cons.prems by simp
          from Cons.IH[OF this] True Cons.prems show ?thesis
            by (simp only: step ids) (simp add: Some pushUnseen_def)
        next
          case False
          let ?st = "\<lparr>ps_names = ps_names st @ [nm], ps_seen = insert nm (ps_seen st),
                        ps_lookups = ps_lookups st @ [nid]\<rparr>"
          have step: "prefLoop nodeById (item # items) st = prefLoop nodeById items ?st"
            using \<open>extractNodeIdFromPreferred item = Some nid\<close> ne f False by (simp add: withTimeout_def)
          have "ps_seen ?st = set (ps_names ?st)" using Cons.prems by simp
          from Cons.IH[OF this] False Cons.prems show ?thesis
            by (simp only: step ids) (simp add: Some pushUnseen_def)
        qed
      qed
    qed
  qed
qed

text \<open>
  The current backend's resolution of a preferred list: the lookups are issued one by
  one for the referenced ids in the list's order, and the names are the first
  occurrences of the names those ids resolve to, in that order; an entry without an id,
  or whose lookup gives no name, contributes nothing.
\<close>

lemma resolvePreferred_sequential_dedup:
  "ps_lookups (resolvePreferredRun nodeById (JArr items)) = referencedIds items
   \<and> resolvePreferredInstanceNames nodeById (JArr items) =
       firstOccurrences (List.map_filter (resolvedName nodeById) (referencedIds items))"
  using prefLoop_char[of "\<lparr>ps_names = [], ps_seen = {}, ps_lookups = []\<rparr>" nodeById items]
  by (simp add: resolvePreferredRun_def resolvePreferredInstanceNames_def firstOccurrences_def)

lemma firstOccurrences_distinct_aux: "distinct acc \<Longrightarrow> distinct (foldl pushUnseen acc xs)"
  by (induction xs arbitrary: acc) (auto simp: pushUnseen_def)

lemma firstOccurrences_distinct: "distinct (firstOccurrences xs)"
  by (simp add: firstOccurrences_def firstOccurrences_distinct_aux)

lemma firstOccurrences_set: "set (firstOccurrences xs) = set xs"
  by (simp add: firstOccurrences_def foldl_pushUnseen_set)

text \<open>
  Claim C6 on the older backend file. Its \<open>resolvePreferredInstanceNames\<close> pushes every
  resolved name: two references that resolve to the same name give that name twice,
  where the current backend's function, on the same list, gives it once.
\<close>

theorem preferred_names_v1_keeps_duplicates:
  "resolvePreferredInstanceNames_v1 iconNodes (JArr [JStr ''20:2'', JStr ''20:4''])
     = Some [''icon/back'', ''icon/back'']
   \<and> resolvePreferredInstanceNames iconNodes (JArr [JStr ''20:2'', JStr ''20:4'']) = [''icon/back'']"
  by (simp add: resolvePreferredInstanceNames_v1_def resolvePreferredInstanceNames_def
      resolvePreferredRun_def iconNodes_def withTimeout_def)

section \<open>A loose component counts as one variant\<close>

lemma showNat_1: "showNat (Suc 0) = ''1''"
  by (simp add: showNat.simps[of "Suc 0"])

lemma loose_targetName:
  "target_set t = None \<Longrightarrow> target_component t = Some cn \<Longrightarrow> targetName t = Inr (comp_name cn)"
  by (simp add: targetName_def)

lemma loose_targetCollected:
  assumes "target_set t = None" "target_component t = Some cn" "comp_defs cn \<noteq> GetterThrows"
  shows "\<exists>c. targetCollected t = Inr c"
proof (cases "comp_defs cn")
  case GetterThrows
  with assms show ?thesis by simp
next
  case Undefined
  with assms show ?thesis by (simp add: targetCollected_def collectPropsFromComponent_def)
next
  case (Defined ds)
  from collect_component_order[OF this] assms show ?thesis by (auto simp: targetCollected_def)
qed

text \<open>
  Claim C10. For a target that is a loose component (no set) whose definitions can be
  read, the fourth line of the markdown is "- Variants: 1", the structured overview has
  \<open>variantsCount = 1\<close>, and when the selection resolves to that target (and no export is
  running) both selection-info messages carry the count 1.
\<close>

theorem loose_component_counts_one:
  assumes "target_set t = None" and "target_component t = Some cn" and "comp_defs cn \<noteq> GetterThrows"
  shows "(\<exists>ls. toMarkdownLines nodeById t = Inr ls \<and> ls ! 3 = ''- Variants: 1'' \<and>
               toMarkdownTarget nodeById t = Inr (joinWith [CHR 0x0A] ls))
       \<and> (\<exists>j. toJSONSummaryTarget nodeById t = Inr j \<and> js_variantsCount j = 1)
       \<and> (resolveFromSelectionAsync (h_selection h) = t \<and> \<not> busy st \<longrightarrow>
            (\<exists>n. sendSelectionInfoAsync h st =
                    ([SelectionInfo (comp_name cn) 1 n, SelectionInfoCamel (comp_name cn) 1 n,
                     Status SelectionDetected False], None)))"
proof -
  from loose_targetCollected[OF assms] obtain c where c: "targetCollected t = Inr c" by blast
  have nm: "targetName t = Inr (comp_name cn)" by (rule loose_targetName[OF assms(1,2)])
  have vc: "targetVariantCount t = 1" using assms(1) by (simp add: targetVariantCount_def)
  have md: "\<exists>ls. toMarkdownLines nodeById t = Inr ls \<and> ls ! 3 = ''- Variants: 1'' \<and>
               toMarkdownTarget nodeById t = Inr (joinWith [CHR 0x0A] ls)"
    by (simp add: toMarkdownLines_def toMarkdownTarget_def nm c vc showNat_1)
  have js: "\<exists>j. toJSONSummaryTarget nodeById t = Inr j \<and> js_variantsCount j = 1"
    by (simp add: toJSONSummaryTarget_def nm c vc)
  have si: "resolveFromSelectionAsync (h_selection h) = t \<and> \<not> busy st \<longrightarrow>
            (\<exists>n. sendSelectionInfoAsync h st =
                    ([SelectionInfo (comp_name cn) 1 n, SelectionInfoCamel (comp_name cn) 1 n,
                     Status SelectionDetected False], None))"
    using assms(2) by (simp add: sendSelectionInfoAsync_def hasTarget_def nm c vc)
  from md js si show ?thesis by blast
qed

text \<open>The theorem at the button as a loose component, selected through an instance of it.\<close>

theorem loose_component_counts_one_witness:
  "(\<exists>ls. toMarkdownLines iconNodes (componentTarget buttonComponent) = Inr ls \<and> ls ! 3 = ''- Variants: 1'' \<and>
         toMarkdownTarget iconNodes (componentTarget buttonComponent) = Inr (joinWith [CHR 0x0A] ls))
   \<and> (\<exists>j. toJSONSummaryTarget iconNodes (componentTarget buttonComponent) = Inr j \<and> js_variantsCount j = 1)
   \<and> (\<exists>n. sendSelectionInfoAsync looseHost initialBackend =
             ([SelectionInfo ''Button'' 1 n, SelectionInfoCamel ''Button'' 1 n,
              Status SelectionDetected False], None))"
proof -
  have 1: "target_set (componentTarget buttonComponent) = None" by (simp add: componentTarget_def)
  have 2: "target_component (componentTarget buttonComponent) = Some buttonComponent"
    by (simp add: componentTarget_def)
  have 3: "comp_defs buttonComponent \<noteq> GetterThrows" by (simp add: buttonComponent_def)
  have 4: "resolveFromSelectionAsync (h_selection looseHost) = componentTarget buttonComponent"
    by (simp add: looseHost_def underSet_def componentTarget_def)
  have 5: "\<not> busy initialBackend" by (simp add: initialBackend_def)
  have 6: "comp_name buttonComponent = ''Button''" by (simp add: buttonComponent_def)
  from loose_component_counts_one[OF 1 2 3, of iconNodes looseHost initialBackend] 4 5 6
  show ?thesis by simp
qed

section \<open>The pretty projection\<close>

lemma prettyOf_fields:
  "let p = prettyOf nodeById k (Some d) in
     p_name p = name d \<and> p_type p = kindString (type d) \<and>
     (type d \<in> {BOOLEAN, TEXT, NUMBER} \<longrightarrow>
        p_default p = (if defaultValue d = JUndefined then None else Some (defaultValue d)) \<and>
        p_preferredInstancesCount p = None \<and> p_preferredInstances p = None \<and> p_values p = None) \<and>
     (type d = INSTANCE_SWAP \<longrightarrow>
        p_default p \<noteq> None \<and> p_default p \<noteq> Some JUndefined \<and>
        (p_default p = Some JNull \<longleftrightarrow> (\<forall>s. defaultValue d \<noteq> JStr s)) \<and>
        p_preferredInstancesCount p = preferredValuesCount d \<and>
        p_preferredInstances p \<noteq> Some [] \<and> p_values p = None) \<and>
     (type d = VARIANT \<longrightarrow>
        p_default p = None \<and> p_preferredInstancesCount p = None \<and> p_preferredInstances p = None \<and>
        p_values p = variantOptions d)"
proof (cases "type d")
  case INSTANCE_SWAP
  have d: "(case resolveSwapName nodeById (defaultValue d) of
              Some (r # rs) \<Rightarrow> JStr (r # rs)
            | _ \<Rightarrow> (case defaultValue d of JStr s \<Rightarrow> JStr s | _ \<Rightarrow> JNull)) \<noteq> JUndefined"
    by (auto split: option.splits list.splits jsval.splits)
  have n: "((case resolveSwapName nodeById (defaultValue d) of
              Some (r # rs) \<Rightarrow> JStr (r # rs)
            | _ \<Rightarrow> (case defaultValue d of JStr s \<Rightarrow> JStr s | _ \<Rightarrow> JNull)) = JNull)
           \<longleftrightarrow> (\<forall>s. defaultValue d \<noteq> JStr s)"
    by (cases "defaultValue d") (auto simp: resolveSwapName_def split: option.splits list.splits)
  show ?thesis using INSTANCE_SWAP d n by (simp add: prettyOf_def Let_def)
qed (simp_all add: prettyOf_def Let_def)

text \<open>
  Claim C7, as the code has it. In the pretty projection the record of a stored
  definition has the name, the kind, and only the fields of its kind: \<open>default\<close> for
  BOOLEAN, TEXT and NUMBER, left out exactly when the stored default is \<open>undefined\<close> (a
  \<open>null\<close> or empty default is emitted as it is); \<open>default\<close>, \<open>preferredInstancesCount\<close> and
  \<open>preferredInstances\<close> for INSTANCE_SWAP, where \<open>default\<close> is always present and is \<open>null\<close>
  exactly when the stored default is not a string, the count is present when the
  collector stored one, and the name list is never empty (it is left out then);
  \<open>values\<close> for VARIANT, present when the collector stored options.
\<close>

theorem pretty_record_fields:
  assumes "toJSONSummaryTarget nodeById t = Inr j" and "targetCollected t = Inr c"
    and "i < length (order c)" and "defs c (order c ! i) = Some d"
  shows "p_name (js_prettyComponentProps j ! i) = name d
     \<and> p_type (js_prettyComponentProps j ! i) = kindString (type d)
     \<and> (type d \<in> {BOOLEAN, TEXT, NUMBER} \<longrightarrow>
          p_default (js_prettyComponentProps j ! i)
            = (if defaultValue d = JUndefined then None else Some (defaultValue d)) \<and>
          p_preferredInstancesCount (js_prettyComponentProps j ! i) = None \<and>
          p_preferredInstances (js_prettyComponentProps j ! i) = None \<and>
          p_values (js_prettyComponentProps j ! i) = None)
     \<and> (type d = INSTANCE_SWAP \<longrightarrow>
          p_default (js_prettyComponentProps j ! i) \<noteq> None \<and>
          p_default (js_prettyComponentProps j ! i) \<noteq> Some JUndefined \<and>
          (p_default (js_prettyComponentProps j ! i) = Some JNull \<longleftrightarrow> (\<forall>s. defaultValue d \<noteq> JStr s)) \<and>
          p_preferredInstancesCount (js_prettyComponentProps j ! i) = preferredValuesCount d \<and>
          p_preferredInstances (js_prettyComponentProps j ! i) \<noteq> Some [] \<and>
          p_values (js_prettyComponentProps j ! i) = None)
     \<and> (type d = VARIANT \<longrightarrow>
          p_default (js_prettyComponentProps j ! i) = None \<and>
          p_preferredInstancesCount (js_prettyComponentProps j ! i) = None \<and>
          p_preferredInstances (js_prettyComponentProps j ! i) = None \<and>
          p_values (js_prettyComponentProps j ! i) = variantOptions d)"
proof -
  from assms(1,2) have "js_prettyComponentProps j = map (\<lambda>k. prettyOf nodeById k (defs c k)) (order c)"
    by (auto simp: toJSONSummaryTarget_def split: sum.splits)
  with assms(3,4) have e: "js_prettyComponentProps j ! i = prettyOf nodeById (order c ! i) (Some d)"
    by simp
  show ?thesis unfolding e
    using prettyOf_fields[of nodeById "order c ! i" d, unfolded Let_def] .
qed

lemma buttonKeys: "heuristicKeys buttonDefs = [''Size#1'', ''Variant#2'', ''Has Left Icon'', ''Left Icon'', ''Text'']"
  by (simp add: heuristicKeys_def itemsOf_def hasMapOf_def cleanPropName_def buttonDefs_def)

text \<open>The theorem at the button set's instance-swap property "Left Icon" (fourth in the order).\<close>

theorem pretty_record_fields_witness:
  "\<exists>j. toJSONSummaryTarget iconNodes (setTarget buttonSet) = Inr j
     \<and> p_name (js_prettyComponentProps j ! 3) = ''Left Icon''
     \<and> p_type (js_prettyComponentProps j ! 3) = ''INSTANCE_SWAP''
     \<and> p_default (js_prettyComponentProps j ! 3) \<noteq> None
     \<and> p_default (js_prettyComponentProps j ! 3) \<noteq> Some JNull
     \<and> p_preferredInstancesCount (js_prettyComponentProps j ! 3) = Some 3
     \<and> p_preferredInstances (js_prettyComponentProps j ! 3) \<noteq> Some []
     \<and> p_values (js_prettyComponentProps j ! 3) = None"
proof -
  let ?t = "setTarget buttonSet"
  let ?d = "liteOfSet ''Left Icon'' \<lparr>d_type = INSTANCE_SWAP, d_defaultValue = Some (JStr ''10:1''),
          d_preferredValues = Some [JStr ''20:1'', JStr ''20:2'', JStr ''20:3''], d_variantOptions = None\<rparr>"
  have sd: "set_defs buttonSet = Defined buttonDefs" by (simp add: buttonSet_def)
  from collect_set_order[OF sd] obtain c where
    c: "collectComponentPropsWithOrder buttonSet = Inr c" "order c = heuristicKeys buttonDefs" by blast
  have tc: "targetCollected ?t = Inr c" using c(1) by (simp add: targetCollected_def setTarget_def)
  have fd: "fillDefs liteOfSet buttonDefs (heuristicKeys buttonDefs) \<lparr>defs = Map.empty, order = []\<rparr> = Inr c"
    using c(1) sd by (simp add: collectComponentPropsWithOrder_def)
  have i: "3 < length (order c)" by (simp add: c(2) buttonKeys)
  have k: "order c ! 3 = ''Left Icon''" by (simp add: c(2) buttonKeys)
  have d: "defs c (order c ! 3) = Some ?d"
    using fillDefs_defs[OF fd, of "''Left Icon''"] by (simp add: k buttonKeys) (simp add: buttonDefs_def)
  obtain j where j: "toJSONSummaryTarget iconNodes ?t = Inr j"
    using tc by (auto simp: toJSONSummaryTarget_def targetName_def setTarget_def)
  have td: "type ?d = INSTANCE_SWAP" "name ?d = ''Left Icon''" "defaultValue ?d = JStr ''10:1''"
    "preferredValuesCount ?d = Some 3"
    by (simp_all add: liteOfSet_def liteDefault_def cleanPropName_def)
  from pretty_record_fields[OF j tc i d] td j show ?thesis
    by (simp add: kindString_def)
qed

text \<open>
  Claim C7 as stated fails: for a set whose instance-swap property has no default, the
  pretty record of that property has \<open>default: null\<close>.
\<close>

theorem pretty_null_default_counterexample:
  "prettyDefaultsOf (toJSONSummaryTarget iconNodes (setTarget hasIconSet)) = Inr [None, None, Some JNull]"
  by (simp add: prettyDefaultsOf_def toJSONSummaryTarget_def targetName_def targetCollected_def
      targetVariantCount_def setTarget_def collectComponentPropsWithOrder_def hasIconSet_def hasIconDefs_def
      heuristicKeys_def itemsOf_def hasMapOf_def cleanPropName_def plainDef_def liteOfSet_def liteDefault_def
      prettyOf_def resolveSwapName_def kindString_def)

section \<open>Fault isolation in a batch\<close>

lemma genLoopMd_char:
  "genLoopMd nb tot i sets (parts, evs) =
     (parts @ map (markdownPart nb) sets, evs @ genTicksFrom i tot sets)"
proof (induction sets arbitrary: i parts evs)
  case Nil
  show ?case by (simp add: genTicksFrom_def)
next
  case (Cons s rest)
  show ?case
    by (cases "toMarkdownTarget nb (setTarget s)")
       (simp_all add: Cons.IH markdownPart_def genTicksFrom_def)
qed

lemma genLoopJson_char:
  "genLoopJson nb tot i sets (items, evs) =
     (items @ map (jsonItem nb) sets, evs @ genTicksFrom i tot sets)"
proof (induction sets arbitrary: i items evs)
  case Nil
  show ?case by (simp add: genTicksFrom_def)
next
  case (Cons s rest)
  show ?case
    by (cases "toJSONSummaryTarget nb (setTarget s)")
       (simp_all add: Cons.IH jsonItem_def genTicksFrom_def)
qed

lemma exportLoopMd_char:
  "\<exists>evs'. exportLoopMd nb tot i sets (parts, evs) = (parts @ map (markdownPart nb) sets, evs @ evs') \<and>
          tickEvents evs' = progressTicksFrom i tot sets \<and> downloadContents evs' = []"
proof (induction sets arbitrary: i parts evs)
  case Nil
  show ?case by (simp add: progressTicksFrom_def tickEvents_def downloadContents_def)
next
  case (Cons s rest)
  show ?case
  proof (cases "toMarkdownTarget nb (setTarget s)")
    case (Inr md)
    from Cons.IH[of "i + 1" "parts @ [md]" "evs @ [Progress (i + 1) tot (set_name s)]"]
    obtain e where e: "exportLoopMd nb tot (i + 1) rest (parts @ [md], evs @ [Progress (i + 1) tot (set_name s)])
        = ((parts @ [md]) @ map (markdownPart nb) rest, (evs @ [Progress (i + 1) tot (set_name s)]) @ e)"
      "tickEvents e = progressTicksFrom (i + 1) tot rest" "downloadContents e = []" by blast
    have "exportLoopMd nb tot i (s # rest) (parts, evs)
        = (parts @ map (markdownPart nb) (s # rest), evs @ (Progress (i + 1) tot (set_name s) # e))"
      using Inr e(1) by (simp add: markdownPart_def)
    moreover have "tickEvents (Progress (i + 1) tot (set_name s) # e) = progressTicksFrom i tot (s # rest)"
      using e(2) by (simp add: tickEvents_def progressTicksFrom_def)
    moreover have "downloadContents (Progress (i + 1) tot (set_name s) # e) = []"
      using e(3) by (simp add: downloadContents_def List.map_filter_simps)
    ultimately show ?thesis by blast
  next
    case (Inl err)
    let ?p = "[Progress (i + 1) tot (set_name s), Status (Skipped (set_name s)) False]"
    from Cons.IH[of "i + 1" "parts @ [failedStanza (set_name s)]" "evs @ ?p"]
    obtain e where e: "exportLoopMd nb tot (i + 1) rest (parts @ [failedStanza (set_name s)], evs @ ?p)
        = ((parts @ [failedStanza (set_name s)]) @ map (markdownPart nb) rest, (evs @ ?p) @ e)"
      "tickEvents e = progressTicksFrom (i + 1) tot rest" "downloadContents e = []" by blast
    have "exportLoopMd nb tot i (s # rest) (parts, evs)
        = (parts @ map (markdownPart nb) (s # rest), evs @ (?p @ e))"
      using Inl e(1) by (simp add: markdownPart_def)
    moreover have "tickEvents (?p @ e) = progressTicksFrom i tot (s # rest)"
      using e(2) by (simp add: tickEvents_def progressTicksFrom_def)
    moreover have "downloadContents (?p @ e) = []"
      using e(3) by (simp add: downloadContents_def List.map_filter_simps)
    ultimately show ?thesis by blast
  qed
qed

lemma exportLoopJson_char:
  "\<exists>evs'. exportLoopJson nb tot i sets (items, evs) = (items @ map (jsonItem nb) sets, evs @ evs') \<and>
          tickEvents evs' = progressTicksFrom i tot sets \<and> downloadContents evs' = []"
proof (induction sets arbitrary: i items evs)
  case Nil
  show ?case by (simp add: progressTicksFrom_def tickEvents_def downloadContents_def)
next
  case (Cons s rest)
  show ?case
  proof (cases "toJSONSummaryTarget nb (setTarget s)")
    case (Inr j)
    from Cons.IH[of "i + 1" "items @ [Parsed j]" "evs @ [Progress (i + 1) tot (set_name s)]"]
    obtain e where e: "exportLoopJson nb tot (i + 1) rest (items @ [Parsed j], evs @ [Progress (i + 1) tot (set_name s)])
        = ((items @ [Parsed j]) @ map (jsonItem nb) rest, (evs @ [Progress (i + 1) tot (set_name s)]) @ e)"
      "tickEvents e = progressTicksFrom (i + 1) tot rest" "downloadContents e = []" by blast
    have "exportLoopJson nb tot i (s # rest) (items, evs)
        = (items @ map (jsonItem nb) (s # rest), evs @ (Progress (i + 1) tot (set_name s) # e))"
      using Inr e(1) by (simp add: jsonItem_def)
    moreover have "tickEvents (Progress (i + 1) tot (set_name s) # e) = progressTicksFrom i tot (s # rest)"
      using e(2) by (simp add: tickEvents_def progressTicksFrom_def)
    moreover have "downloadContents (Progress (i + 1) tot (set_name s) # e) = []"
      using e(3) by (simp add: downloadContents_def List.map_filter_simps)
    ultimately show ?thesis by blast
  next
    case (Inl err)
    let ?p = "[Progress (i + 1) tot (set_name s), Status (Skipped (set_name s)) False]"
    from Cons.IH[of "i + 1" "items @ [failedItem (set_name s)]" "evs @ ?p"]
    obtain e where e: "exportLoopJson nb tot (i + 1) rest (items @ [failedItem (set_name s)], evs @ ?p)
        = ((items @ [failedItem (set_name s)]) @ map (jsonItem nb) rest, (evs @ ?p) @ e)"
      "tickEvents e = progressTicksFrom (i + 1) tot rest" "downloadContents e = []" by blast
    have "exportLoopJson nb tot i (s # rest) (items, evs)
        = (items @ map (jsonItem nb) (s # rest), evs @ (?p @ e))"
      using Inl e(1) by (simp add: jsonItem_def)
    moreover have "tickEvents (?p @ e) = progressTicksFrom i tot (s # rest)"
      using e(2) by (simp add: tickEvents_def progressTicksFrom_def)
    moreover have "downloadContents (?p @ e) = []"
      using e(3) by (simp add: downloadContents_def List.map_filter_simps)
    ultimately show ?thesis by blast
  qed
qed

lemma set_generation:
  "toMarkdownTarget nb (setTarget s) =
     (case collectComponentPropsWithOrder s of Inl e \<Rightarrow> Inl e
      | Inr c \<Rightarrow> toMarkdownTarget nb (setTarget s))"
  "isl (toMarkdownTarget nb (setTarget s)) = isl (collectComponentPropsWithOrder s)"
  "isl (toJSONSummaryTarget nb (setTarget s)) = isl (collectComponentPropsWithOrder s)"
  by (auto simp: toMarkdownTarget_def toMarkdownLines_def toJSONSummaryTarget_def targetName_def
      targetCollected_def setTarget_def split: sum.splits)

lemma generationThrows_iff:
  "generationThrows nb s = isl (collectComponentPropsWithOrder s)"
  by (simp add: generationThrows_def set_generation(2,3))

lemma parts_when_none_throws:
  assumes "\<forall>x\<in>set xs. \<not> generationThrows nb x"
  shows "map (markdownPart nb) xs = markdownDocs nb xs \<and> length (markdownDocs nb xs) = length xs
       \<and> map (jsonItem nb) xs = jsonDocs nb xs \<and> length (jsonDocs nb xs) = length xs"
  using assms
proof (induction xs)
  case Nil
  show ?case by (simp add: markdownDocs_def jsonDocs_def List.map_filter_simps)
next
  case (Cons x xs)
  from Cons.prems have nx: "\<not> isl (collectComponentPropsWithOrder x)"
    by (simp add: generationThrows_iff)
  then obtain md where md: "toMarkdownTarget nb (setTarget x) = Inr md"
    using set_generation(2)[of nb x] by (cases "toMarkdownTarget nb (setTarget x)") auto
  from nx obtain j where j: "toJSONSummaryTarget nb (setTarget x) = Inr j"
    using set_generation(3)[of nb x] by (cases "toJSONSummaryTarget nb (setTarget x)") auto
  from Cons have ih: "map (markdownPart nb) xs = markdownDocs nb xs" "length (markdownDocs nb xs) = length xs"
    "map (jsonItem nb) xs = jsonDocs nb xs" "length (jsonDocs nb xs) = length xs" by auto
  have 1: "markdownDocs nb (x # xs) = md # markdownDocs nb xs"
    using md by (simp add: markdownDocs_def List.map_filter_simps)
  have 2: "jsonDocs nb (x # xs) = Parsed j # jsonDocs nb xs"
    using j by (simp add: jsonDocs_def List.map_filter_simps)
  have hd: "markdownPart nb x = md" "jsonItem nb x = Parsed j"
    using md j by (simp_all add: markdownPart_def jsonItem_def)
  show ?case using ih 1 2 hd by simp
qed

lemma parts_single_failure:
  assumes "\<forall>x\<in>set (pre @ post). \<not> generationThrows nb x" and "generationThrows nb s"
  shows "map (markdownPart nb) (pre @ s # post)
           = markdownDocs nb pre @ [failedStanza (set_name s)] @ markdownDocs nb post"
    and "map (jsonItem nb) (pre @ s # post) = jsonDocs nb pre @ [failedItem (set_name s)] @ jsonDocs nb post"
proof -
  have p: "\<forall>x\<in>set pre. \<not> generationThrows nb x" and q: "\<forall>x\<in>set post. \<not> generationThrows nb x"
    using assms(1) by auto
  have t: "isl (toMarkdownTarget nb (setTarget s))" "isl (toJSONSummaryTarget nb (setTarget s))"
    using assms(2) by (simp_all add: generationThrows_iff set_generation(2,3))
  have m: "markdownPart nb s = failedStanza (set_name s)"
    using t(1) by (cases "toMarkdownTarget nb (setTarget s)") (auto simp: markdownPart_def)
  have j: "jsonItem nb s = failedItem (set_name s)"
    using t(2) by (cases "toJSONSummaryTarget nb (setTarget s)") (auto simp: jsonItem_def)
  show "map (markdownPart nb) (pre @ s # post)
           = markdownDocs nb pre @ [failedStanza (set_name s)] @ markdownDocs nb post"
    using parts_when_none_throws[OF p] parts_when_none_throws[OF q] m by simp
  show "map (jsonItem nb) (pre @ s # post) = jsonDocs nb pre @ [failedItem (set_name s)] @ jsonDocs nb post"
    using parts_when_none_throws[OF p] parts_when_none_throws[OF q] j by simp
qed

lemma genTicksFrom_Cons:
  "genTicksFrom i tot (s # sets) = GenTick (i + 1) tot (set_name s) # genTicksFrom (Suc i) tot sets"
  by (simp add: genTicksFrom_def)

lemma genTicks_projections:
  "tickEvents (genTicksFrom i tot sets) = genTicksFrom i tot sets"
  "genCompleteContents (genTicksFrom i tot sets) = []"
  by (induction sets arbitrary: i)
     (simp_all add: genTicksFrom_Cons tickEvents_def genCompleteContents_def List.map_filter_simps,
      simp_all add: genTicksFrom_def)

lemma tickEvents_append: "tickEvents (a @ b) = tickEvents a @ tickEvents b"
  by (simp add: tickEvents_def)

lemma genCompleteContents_append: "genCompleteContents (a @ b) = genCompleteContents a @ genCompleteContents b"
  by (induction a) (simp_all add: genCompleteContents_def List.map_filter_simps split: option.splits)

lemma downloadContents_append: "downloadContents (a @ b) = downloadContents a @ downloadContents b"
  by (induction a) (simp_all add: downloadContents_def List.map_filter_simps split: option.splits)

lemma streamGenerateAll_md:
  "fst (streamGenerateAll h st MD) =
     [GenStart (length (exportScanCache st))] @
     genTicksFrom 0 (length (exportScanCache st)) (exportScanCache st) @
     [GenComplete (MdContent (joinWith partsSeparator (map (markdownPart (h_nodeById h)) (exportScanCache st)))) MD]"
  by (simp add: streamGenerateAll_def Let_def genLoopMd_char)

lemma streamGenerateAll_json:
  "fst (streamGenerateAll h st JSON) =
     [GenStart (length (exportScanCache st))] @
     genTicksFrom 0 (length (exportScanCache st)) (exportScanCache st) @
     [GenComplete (JsonContent \<lparr>agg_document = documentName h, agg_count = length (exportScanCache st),
          agg_items = map (jsonItem (h_nodeById h)) (exportScanCache st)\<rparr>) JSON]"
  by (simp add: streamGenerateAll_def Let_def genLoopJson_char)

lemma exportAllMarkdown_contents:
  assumes "h_pagesLoad h" "h_componentSets h \<noteq> []"
  shows "downloadContents (fst (exportAllMarkdown h)) =
           [MdContent (joinWith partsSeparator (map (markdownPart (h_nodeById h)) (h_componentSets h)))]
       \<and> tickEvents (fst (exportAllMarkdown h)) =
           progressTicksFrom 0 (length (h_componentSets h)) (h_componentSets h)"
proof -
  let ?sets = "h_componentSets h"
  let ?init = "[HostLoadAllPages, HostFindAll, Status (GeneratingMarkdownFor (length ?sets)) False,
                            Progress 0 (length ?sets) initializingLabel]"
  from exportLoopMd_char[of "h_nodeById h" "length ?sets" 0 ?sets "[]" ?init] obtain e where
    e: "exportLoopMd (h_nodeById h) (length ?sets) 0 ?sets ([], ?init)
         = ([] @ map (markdownPart (h_nodeById h)) ?sets, ?init @ e)"
       "tickEvents e = progressTicksFrom 0 (length ?sets) ?sets" "downloadContents e = []" by blast
  have f: "fst (exportAllMarkdown h) = ?init @ e @
      [DownloadText (MdContent (joinWith partsSeparator (map (markdownPart (h_nodeById h)) ?sets))),
       Status MarkdownReady False]"
    using assms e(1) by (simp add: exportAllMarkdown_def Let_def)
  have i1: "tickEvents ?init = []" "downloadContents ?init = []"
    by (simp_all add: tickEvents_def downloadContents_def List.map_filter_simps)
  show ?thesis
    unfolding f tickEvents_append downloadContents_append i1 e(2,3)
    by (simp add: tickEvents_def downloadContents_def List.map_filter_simps)
qed

lemma exportAllJSON_contents:
  assumes "h_pagesLoad h" "h_componentSets h \<noteq> []"
  shows "downloadContents (fst (exportAllJSON h)) =
           [JsonContent \<lparr>agg_document = documentName h, agg_count = length (h_componentSets h),
              agg_items = map (jsonItem (h_nodeById h)) (h_componentSets h)\<rparr>]
       \<and> tickEvents (fst (exportAllJSON h)) =
           progressTicksFrom 0 (length (h_componentSets h)) (h_componentSets h)"
proof -
  let ?sets = "h_componentSets h"
  let ?init = "[HostLoadAllPages, HostFindAll, Status (GeneratingJsonFor (length ?sets)) False,
                            Progress 0 (length ?sets) initializingLabel]"
  from exportLoopJson_char[of "h_nodeById h" "length ?sets" 0 ?sets "[]" ?init] obtain e where
    e: "exportLoopJson (h_nodeById h) (length ?sets) 0 ?sets ([], ?init)
         = ([] @ map (jsonItem (h_nodeById h)) ?sets, ?init @ e)"
       "tickEvents e = progressTicksFrom 0 (length ?sets) ?sets" "downloadContents e = []" by blast
  have f: "fst (exportAllJSON h) = ?init @ e @
      [DownloadText (JsonContent \<lparr>agg_document = documentName h, agg_count = length ?sets,
              agg_items = map (jsonItem (h_nodeById h)) ?sets\<rparr>),
       Status JsonReady False]"
    using assms e(1) by (simp add: exportAllJSON_def Let_def)
  have i1: "tickEvents ?init = []" "downloadContents ?init = []"
    by (simp_all add: tickEvents_def downloadContents_def List.map_filter_simps)
  show ?thesis
    unfolding f tickEvents_append downloadContents_append i1 e(2,3)
    by (simp add: tickEvents_def downloadContents_def List.map_filter_simps)
qed

text \<open>The entries of a batch in which exactly one set throws, and its ticks.\<close>

lemma batch_single_failure_parts:
  assumes "sets = pre @ s # post"
    and "\<forall>x\<in>set (pre @ post). \<not> generationThrows (h_nodeById h) x"
    and "generationThrows (h_nodeById h) s"
  shows "(exportScanCache st = sets \<longrightarrow>
            genCompleteContents (fst (streamGenerateAll h st MD)) =
              [MdContent (joinWith partsSeparator
                 (markdownDocs (h_nodeById h) pre @ [failedStanza (set_name s)] @ markdownDocs (h_nodeById h) post))]
          \<and> genCompleteContents (fst (streamGenerateAll h st JSON)) =
              [JsonContent \<lparr>agg_document = documentName h, agg_count = length sets,
                 agg_items = jsonDocs (h_nodeById h) pre @ [failedItem (set_name s)] @ jsonDocs (h_nodeById h) post\<rparr>]
          \<and> tickEvents (fst (streamGenerateAll h st MD)) = genTicksFrom 0 (length sets) sets
          \<and> tickEvents (fst (streamGenerateAll h st JSON)) = genTicksFrom 0 (length sets) sets)
       \<and> (h_componentSets h = sets \<and> h_pagesLoad h \<longrightarrow>
            downloadContents (fst (exportAllMarkdown h)) =
              [MdContent (joinWith partsSeparator
                 (markdownDocs (h_nodeById h) pre @ [failedStanza (set_name s)] @ markdownDocs (h_nodeById h) post))]
          \<and> downloadContents (fst (exportAllJSON h)) =
              [JsonContent \<lparr>agg_document = documentName h, agg_count = length sets,
                 agg_items = jsonDocs (h_nodeById h) pre @ [failedItem (set_name s)] @ jsonDocs (h_nodeById h) post\<rparr>]
          \<and> tickEvents (fst (exportAllMarkdown h)) = progressTicksFrom 0 (length sets) sets
          \<and> tickEvents (fst (exportAllJSON h)) = progressTicksFrom 0 (length sets) sets)
       \<and> length (markdownDocs (h_nodeById h) pre) = length pre
       \<and> length (markdownDocs (h_nodeById h) post) = length post
       \<and> length (jsonDocs (h_nodeById h) pre) = length pre
       \<and> length (jsonDocs (h_nodeById h) post) = length post"
proof -
  let ?nb = "h_nodeById h"
  have p: "\<forall>x\<in>set pre. \<not> generationThrows ?nb x" and q: "\<forall>x\<in>set post. \<not> generationThrows ?nb x"
    using assms(2) by auto
  note M = parts_single_failure(1)[OF assms(2,3)]
  note J = parts_single_failure(2)[OF assms(2,3)]
  have A: "exportScanCache st = sets \<longrightarrow>
            genCompleteContents (fst (streamGenerateAll h st MD)) =
              [MdContent (joinWith partsSeparator
                 (markdownDocs ?nb pre @ [failedStanza (set_name s)] @ markdownDocs ?nb post))]
          \<and> genCompleteContents (fst (streamGenerateAll h st JSON)) =
              [JsonContent \<lparr>agg_document = documentName h, agg_count = length sets,
                 agg_items = jsonDocs ?nb pre @ [failedItem (set_name s)] @ jsonDocs ?nb post\<rparr>]
          \<and> tickEvents (fst (streamGenerateAll h st MD)) = genTicksFrom 0 (length sets) sets
          \<and> tickEvents (fst (streamGenerateAll h st JSON)) = genTicksFrom 0 (length sets) sets"
  proof
    assume c: "exportScanCache st = sets"
    have g: "genCompleteContents [GenStart n] = []" "tickEvents [GenStart n] = []"
      "genCompleteContents [GenComplete x f] = [x]" "tickEvents [GenComplete x f] = []" for n x f
      by (simp_all add: genCompleteContents_def tickEvents_def List.map_filter_simps)
    show "genCompleteContents (fst (streamGenerateAll h st MD)) =
              [MdContent (joinWith partsSeparator
                 (markdownDocs ?nb pre @ [failedStanza (set_name s)] @ markdownDocs ?nb post))]
          \<and> genCompleteContents (fst (streamGenerateAll h st JSON)) =
              [JsonContent \<lparr>agg_document = documentName h, agg_count = length sets,
                 agg_items = jsonDocs ?nb pre @ [failedItem (set_name s)] @ jsonDocs ?nb post\<rparr>]
          \<and> tickEvents (fst (streamGenerateAll h st MD)) = genTicksFrom 0 (length sets) sets
          \<and> tickEvents (fst (streamGenerateAll h st JSON)) = genTicksFrom 0 (length sets) sets"
      unfolding streamGenerateAll_md streamGenerateAll_json c genCompleteContents_append tickEvents_append
        genTicks_projections g
      using M J by (simp add: assms(1))
  qed
  have B: "h_componentSets h = sets \<and> h_pagesLoad h \<longrightarrow>
            downloadContents (fst (exportAllMarkdown h)) =
              [MdContent (joinWith partsSeparator
                 (markdownDocs ?nb pre @ [failedStanza (set_name s)] @ markdownDocs ?nb post))]
          \<and> downloadContents (fst (exportAllJSON h)) =
              [JsonContent \<lparr>agg_document = documentName h, agg_count = length sets,
                 agg_items = jsonDocs ?nb pre @ [failedItem (set_name s)] @ jsonDocs ?nb post\<rparr>]
          \<and> tickEvents (fst (exportAllMarkdown h)) = progressTicksFrom 0 (length sets) sets
          \<and> tickEvents (fst (exportAllJSON h)) = progressTicksFrom 0 (length sets) sets"
  proof
    assume a: "h_componentSets h = sets \<and> h_pagesLoad h"
    then have ne: "h_componentSets h \<noteq> []" and pl: "h_pagesLoad h" using assms(1) by auto
    from exportAllMarkdown_contents[OF pl ne] exportAllJSON_contents[OF pl ne] a M J
    show "downloadContents (fst (exportAllMarkdown h)) =
              [MdContent (joinWith partsSeparator
                 (markdownDocs ?nb pre @ [failedStanza (set_name s)] @ markdownDocs ?nb post))]
          \<and> downloadContents (fst (exportAllJSON h)) =
              [JsonContent \<lparr>agg_document = documentName h, agg_count = length sets,
                 agg_items = jsonDocs ?nb pre @ [failedItem (set_name s)] @ jsonDocs ?nb post\<rparr>]
          \<and> tickEvents (fst (exportAllMarkdown h)) = progressTicksFrom 0 (length sets) sets
          \<and> tickEvents (fst (exportAllJSON h)) = progressTicksFrom 0 (length sets) sets"
      by (simp add: assms(1))
  qed
  from A B parts_when_none_throws[OF p] parts_when_none_throws[OF q] show ?thesis by blast
qed

lemma markdownDocs_documents:
  "\<forall>x\<in>set xs. \<not> generationThrows nb x \<Longrightarrow>
   list_all2 (\<lambda>x d. toMarkdownTarget nb (setTarget x) = Inr d) xs (markdownDocs nb xs)"
proof (induction xs)
  case Nil
  show ?case by (simp add: markdownDocs_def List.map_filter_simps)
next
  case (Cons x xs)
  from Cons.prems have "\<not> isl (toMarkdownTarget nb (setTarget x))" by (simp add: generationThrows_def)
  then obtain d where d: "toMarkdownTarget nb (setTarget x) = Inr d"
    by (cases "toMarkdownTarget nb (setTarget x)") auto
  have "markdownDocs nb (x # xs) = d # markdownDocs nb xs"
    by (simp add: markdownDocs_def List.map_filter_simps d)
  with Cons d show ?case by simp
qed

lemma jsonDocs_documents:
  "\<forall>x\<in>set xs. \<not> generationThrows nb x \<Longrightarrow>
   list_all2 (\<lambda>x i. case i of Parsed j \<Rightarrow> toJSONSummaryTarget nb (setTarget x) = Inr j | Failed n r \<Rightarrow> False)
     xs (jsonDocs nb xs)"
proof (induction xs)
  case Nil
  show ?case by (simp add: jsonDocs_def List.map_filter_simps)
next
  case (Cons x xs)
  from Cons.prems have "\<not> isl (toJSONSummaryTarget nb (setTarget x))" by (simp add: generationThrows_def)
  then obtain j where j: "toJSONSummaryTarget nb (setTarget x) = Inr j"
    by (cases "toJSONSummaryTarget nb (setTarget x)") auto
  have "jsonDocs nb (x # xs) = Parsed j # jsonDocs nb xs"
    by (simp add: jsonDocs_def List.map_filter_simps j)
  with Cons j show ?case by simp
qed

text \<open>
  Claim C4. Let the discovered sets be \<open>pre @ s # post\<close>, where the generation of \<open>s\<close>
  throws and that of no other set does. Then the aggregate of \<open>streamGenerateAll\<close> (the
  parts joined by the separator for markdown, the \<open>items\<close> with \<open>count\<close> for JSON) and the
  one \<open>exportAllMarkdown\<close> and \<open>exportAllJSON\<close> download has one entry per set, in discovery
  order: the documents of \<open>pre\<close>, the placeholder of \<open>s\<close>, the documents of \<open>post\<close>. The
  placeholder is, for markdown, the heading "# " with the name of \<open>s\<close>, an empty line and
  the quoted warning "Failed to generate this Component Set. Skipped."; for JSON, the
  record of the name of \<open>s\<close> and the error "Failed to generate this Component Set". Every
  other entry is the full document \<open>toMarkdownTarget\<close> (or \<open>toJSONSummaryTarget\<close>) returns
  for the set at its place, and a tick is posted for every one of the sets, those after
  \<open>s\<close> included.
\<close>

theorem batch_isolates_single_failure:
  assumes "sets = pre @ s # post"
    and "\<forall>x\<in>set (pre @ post). \<not> generationThrows (h_nodeById h) x"
    and "generationThrows (h_nodeById h) s"
  shows "(exportScanCache st = sets \<longrightarrow>
            genCompleteContents (fst (streamGenerateAll h st MD)) =
              [MdContent (joinWith partsSeparator
                 (markdownDocs (h_nodeById h) pre
                  @ [''# '' @ set_name s @ [CHR 0x0A, CHR 0x0A] @ ''> '' @
                     [CHR 0xE2, CHR 0x9A, CHR 0xA0, CHR 0xEF, CHR 0xB8, CHR 0x8F] @
                     '' Failed to generate this Component Set. Skipped.'']
                  @ markdownDocs (h_nodeById h) post))]
          \<and> genCompleteContents (fst (streamGenerateAll h st JSON)) =
              [JsonContent \<lparr>agg_document = documentName h, agg_count = length sets,
                 agg_items = jsonDocs (h_nodeById h) pre
                   @ [Failed (set_name s) ''Failed to generate this Component Set'']
                   @ jsonDocs (h_nodeById h) post\<rparr>]
          \<and> tickEvents (fst (streamGenerateAll h st MD)) = genTicksFrom 0 (length sets) sets
          \<and> tickEvents (fst (streamGenerateAll h st JSON)) = genTicksFrom 0 (length sets) sets)
       \<and> (h_componentSets h = sets \<and> h_pagesLoad h \<longrightarrow>
            downloadContents (fst (exportAllMarkdown h)) =
              [MdContent (joinWith partsSeparator
                 (markdownDocs (h_nodeById h) pre
                  @ [''# '' @ set_name s @ [CHR 0x0A, CHR 0x0A] @ ''> '' @
                     [CHR 0xE2, CHR 0x9A, CHR 0xA0, CHR 0xEF, CHR 0xB8, CHR 0x8F] @
                     '' Failed to generate this Component Set. Skipped.'']
                  @ markdownDocs (h_nodeById h) post))]
          \<and> downloadContents (fst (exportAllJSON h)) =
              [JsonContent \<lparr>agg_document = documentName h, agg_count = length sets,
                 agg_items = jsonDocs (h_nodeById h) pre
                   @ [Failed (set_name s) ''Failed to generate this Component Set'']
                   @ jsonDocs (h_nodeById h) post\<rparr>]
          \<and> tickEvents (fst (exportAllMarkdown h)) = progressTicksFrom 0 (length sets) sets
          \<and> tickEvents (fst (exportAllJSON h)) = progressTicksFrom 0 (length sets) sets)
       \<and> length (markdownDocs (h_nodeById h) pre) = length pre
       \<and> length (markdownDocs (h_nodeById h) post) = length post
       \<and> length (jsonDocs (h_nodeById h) pre) = length pre
       \<and> length (jsonDocs (h_nodeById h) post) = length post
       \<and> list_all2 (\<lambda>x d. toMarkdownTarget (h_nodeById h) (setTarget x) = Inr d)
            (pre @ post) (markdownDocs (h_nodeById h) pre @ markdownDocs (h_nodeById h) post)
       \<and> list_all2 (\<lambda>x i. case i of Parsed j \<Rightarrow> toJSONSummaryTarget (h_nodeById h) (setTarget x) = Inr j
                                   | Failed n r \<Rightarrow> False)
            (pre @ post) (jsonDocs (h_nodeById h) pre @ jsonDocs (h_nodeById h) post)"
proof -
  let ?nb = "h_nodeById h"
  have p: "\<forall>x\<in>set pre. \<not> generationThrows ?nb x" and q: "\<forall>x\<in>set post. \<not> generationThrows ?nb x"
    using assms(2) by auto
  have m: "list_all2 (\<lambda>x d. toMarkdownTarget ?nb (setTarget x) = Inr d)
            (pre @ post) (markdownDocs ?nb pre @ markdownDocs ?nb post)"
    by (intro list_all2_appendI markdownDocs_documents p q)
  have j: "list_all2 (\<lambda>x i. case i of Parsed j \<Rightarrow> toJSONSummaryTarget ?nb (setTarget x) = Inr j
                                   | Failed n r \<Rightarrow> False)
            (pre @ post) (jsonDocs ?nb pre @ jsonDocs ?nb post)"
    by (intro list_all2_appendI jsonDocs_documents p q)
  note P = batch_single_failure_parts[OF assms, of st, unfolded failedStanza_def failedItem_def warningSign_def]
  from P m j show ?thesis by blast
qed

lemma batch_throws:
  "\<not> generationThrows iconNodes hasIconSet" "generationThrows iconNodes brokenSet"
  "\<not> generationThrows iconNodes iconFirstSet"
proof -
  have "set_defs hasIconSet = Defined hasIconDefs" by (simp add: hasIconSet_def)
  from collect_set_order[OF this] show "\<not> generationThrows iconNodes hasIconSet"
    by (auto simp: generationThrows_iff)
  have "set_defs iconFirstSet = Defined iconFirstDefs" by (simp add: iconFirstSet_def)
  from collect_set_order[OF this] show "\<not> generationThrows iconNodes iconFirstSet"
    by (auto simp: generationThrows_iff)
  show "generationThrows iconNodes brokenSet"
    by (simp add: generationThrows_iff collectComponentPropsWithOrder_def brokenSet_def)
qed

text \<open>
  The theorem at three discovered sets of which the second cannot be read: three
  entries, the second the placeholder named "Broken", and ticks 1/3, 2/3, 3/3.
\<close>

theorem batch_isolates_single_failure_witness:
  "genCompleteContents (fst (streamGenerateAll batchHost batchState MD)) =
     [MdContent (joinWith partsSeparator
        (markdownDocs iconNodes [hasIconSet] @ [''# '' @ ''Broken'' @ [CHR 0x0A, CHR 0x0A] @ ''> '' @
            [CHR 0xE2, CHR 0x9A, CHR 0xA0, CHR 0xEF, CHR 0xB8, CHR 0x8F] @
            '' Failed to generate this Component Set. Skipped.''] @ markdownDocs iconNodes [iconFirstSet]))]
   \<and> genCompleteContents (fst (streamGenerateAll batchHost batchState JSON)) =
     [JsonContent \<lparr>agg_document = ''Library'', agg_count = 3,
        agg_items = jsonDocs iconNodes [hasIconSet] @ [Failed ''Broken'' ''Failed to generate this Component Set''] @ jsonDocs iconNodes [iconFirstSet]\<rparr>]
   \<and> tickEvents (fst (streamGenerateAll batchHost batchState MD)) =
       [GenTick 1 3 ''Chip'', GenTick 2 3 ''Broken'', GenTick 3 3 ''Chip'']
   \<and> downloadContents (fst (exportAllJSON batchHost)) =
     [JsonContent \<lparr>agg_document = ''Library'', agg_count = 3,
        agg_items = jsonDocs iconNodes [hasIconSet] @ [Failed ''Broken'' ''Failed to generate this Component Set''] @ jsonDocs iconNodes [iconFirstSet]\<rparr>]
   \<and> tickEvents (fst (exportAllJSON batchHost)) =
       [Progress 1 3 ''Chip'', Progress 2 3 ''Broken'', Progress 3 3 ''Chip'']
   \<and> length (markdownDocs iconNodes [hasIconSet]) = 1
   \<and> length (jsonDocs iconNodes [iconFirstSet]) = 1"
proof -
  have nb: "h_nodeById batchHost = iconNodes" by (simp add: batchHost_def)
  have 1: "[hasIconSet, brokenSet, iconFirstSet] = [hasIconSet] @ brokenSet # [iconFirstSet]" by simp
  have 2: "\<forall>x\<in>set ([hasIconSet] @ [iconFirstSet]). \<not> generationThrows (h_nodeById batchHost) x"
    using batch_throws by (simp add: nb)
  have 3: "generationThrows (h_nodeById batchHost) brokenSet" using batch_throws by (simp add: nb)
  have c: "exportScanCache batchState = [hasIconSet, brokenSet, iconFirstSet]"
    by (simp add: batchState_def)
  have w: "h_componentSets batchHost = [hasIconSet, brokenSet, iconFirstSet] \<and> h_pagesLoad batchHost"
    by (simp add: batchHost_def)
  have t: "genTicksFrom 0 (Suc (Suc (Suc 0))) [hasIconSet, brokenSet, iconFirstSet] =
      [GenTick 1 3 ''Chip'', GenTick 2 3 ''Broken'', GenTick 3 3 ''Chip'']"
    "progressTicksFrom 0 (Suc (Suc (Suc 0))) [hasIconSet, brokenSet, iconFirstSet] =
      [Progress 1 3 ''Chip'', Progress 2 3 ''Broken'', Progress 3 3 ''Chip'']"
    by (simp_all add: genTicksFrom_def progressTicksFrom_def hasIconSet_def brokenSet_def iconFirstSet_def
        numeral_3_eq_3 numeral_2_eq_2)
  have d: "documentName batchHost = ''Library''" "set_name brokenSet = ''Broken''"
    by (simp_all add: documentName_def batchHost_def brokenSet_def)
  from batch_isolates_single_failure[OF 1 2 3, of batchState] c w
  show ?thesis by (simp add: nb t d)
qed

section \<open>Generate requests and the scan cache\<close>

lemma exportRequest_state:
  "h_pagesLoad h \<Longrightarrow>
   snd (exportRequest h st f m) =
     st\<lparr>exportScanCache := h_componentSets h, exportScanFormat := None, busy := False, scanAllowed := False\<rparr>"
  by (simp add: exportRequest_def streamScan_def streamGenerateAll_def Let_def split: prod.splits Format.splits)

lemma tag_selection: "resolveFromSelectionAsync (h_selection tagHost) = componentTarget tagComponent"
  by (simp add: tagHost_def underSet_def componentTarget_def)

lemma tag_markdown: "toMarkdownTarget iconNodes (componentTarget tagComponent) = Inr tagMarkdown"
  by (simp add: toMarkdownTarget_def toMarkdownLines_def targetName_def targetCollected_def
      targetVariantCount_def componentTarget_def tagComponent_def collectPropsFromComponent_def
      tagMarkdown_def showNat.simps)

lemma generate_with_empty_cache:
  assumes "exportScanCache st = []"
    and "hasTarget (resolveFromSelectionAsync (h_selection h))"
    and "toMarkdownTarget (h_nodeById h) (resolveFromSelectionAsync (h_selection h)) = Inr md"
  shows "fst (onmessage h st (UiGenerate (Some MD) x)) =
           [Status Generating False, GenerationResult (Some MD) (MdOutput md), Status Generated False]"
  using assms by (simp add: onmessage_def orElse_def generateForSelection_def Let_def)

lemma generate_with_cache:
  assumes "exportScanCache st \<noteq> []"
  shows "onmessage h st (UiGenerate (Some f) x) = streamGenerateAll h st f"
  using assms by (simp add: onmessage_def orElse_def)

lemma generationResults_stream: "generationResults (fst (streamGenerateAll h st f)) = []"
proof -
  have t: "generationResults (genTicksFrom i n xs) = []" for i n xs
    by (induction xs arbitrary: i)
       (simp_all add: genTicksFrom_Cons generationResults_def List.map_filter_simps, simp add: genTicksFrom_def)
  have a: "generationResults (a @ b) = generationResults a @ generationResults b" for a b
    by (induction a) (simp_all add: generationResults_def List.map_filter_simps split: option.splits)
  have g: "generationResults [GenStart n] = []" "generationResults [GenComplete c fm] = []" for n c fm
    by (simp_all add: generationResults_def List.map_filter_simps)
  show ?thesis
  proof (cases f)
    case MD
    show ?thesis unfolding MD streamGenerateAll_md a t g by simp
  next
    case JSON
    show ?thesis unfolding JSON streamGenerateAll_json a t g by simp
  qed
qed

text \<open>
  Let the selection resolve to a target. The requests \<open>generate-md\<close> and \<open>generate-json\<close>
  post the rendering of that target whatever the backend's state is, and so does
  \<open>ui-generate\<close> while the scan cache is empty (with a format, the document of that format;
  without one, both documents).
\<close>

lemma generate_renders_selection_empty_cache:
  assumes "hasTarget (resolveFromSelectionAsync (h_selection h))"
    and "toMarkdownTarget (h_nodeById h) (resolveFromSelectionAsync (h_selection h)) = Inr md"
    and "toJSONSummaryTarget (h_nodeById h) (resolveFromSelectionAsync (h_selection h)) = Inr js"
  shows "generationResults (fst (onmessage h st GenerateMd)) = [(Some MD, MdOutput md)]
     \<and> generationResults (fst (onmessage h st GenerateJson)) = [(Some JSON, JsonOutput js)]
     \<and> generationResults (fst (onmessage h st (UiGenerate None None)))
           = [(Some MD, MdOutput md), (Some JSON, JsonOutput js)]
     \<and> (exportScanCache st = [] \<and> orElse f1 f2 = Some MD \<longrightarrow>
           generationResults (fst (onmessage h st (UiGenerate f1 f2))) = [(Some MD, MdOutput md)])
     \<and> (exportScanCache st = [] \<and> orElse f1 f2 = Some JSON \<longrightarrow>
           generationResults (fst (onmessage h st (UiGenerate f1 f2))) = [(Some JSON, JsonOutput js)])"
proof -
  have n: "orElse None None = (None :: Format option)" by (simp add: orElse_def)
  show ?thesis
    using assms
    by (simp add: onmessage_def Let_def generationResults_def List.map_filter_simps
        generateForSelection_def n)
qed

lemma tag_json:
  "\<exists>js. toJSONSummaryTarget iconNodes (componentTarget tagComponent) = Inr js"
  by (simp add: toJSONSummaryTarget_def targetName_def targetCollected_def componentTarget_def
      tagComponent_def collectPropsFromComponent_def)

text \<open>
  With the loose component "Tag" selected: \<open>ui-generate\<close> in the initial state, and
  \<open>generate-md\<close> in the state an export leaves behind.
\<close>

lemma generate_renders_selection_example:
  "generationResults (fst (onmessage tagHost initialBackend (UiGenerate (Some MD) None)))
       = [(Some MD, MdOutput tagMarkdown)]
   \<and> generationResults (fst (onmessage tagHost (snd (onmessage tagHost initialBackend ExportMd)) GenerateMd))
       = [(Some MD, MdOutput tagMarkdown)]"
proof -
  have nb: "h_nodeById tagHost = iconNodes" by (simp add: tagHost_def)
  have 1: "hasTarget (resolveFromSelectionAsync (h_selection tagHost))"
    by (simp add: tag_selection hasTarget_def componentTarget_def)
  have 2: "toMarkdownTarget (h_nodeById tagHost) (resolveFromSelectionAsync (h_selection tagHost)) = Inr tagMarkdown"
    by (simp add: nb tag_selection tag_markdown)
  from tag_json obtain js where
    3: "toJSONSummaryTarget (h_nodeById tagHost) (resolveFromSelectionAsync (h_selection tagHost)) = Inr js"
    by (auto simp: nb tag_selection)
  have e: "exportScanCache initialBackend = []" by (simp add: initialBackend_def)
  have o: "orElse (Some MD) None = Some MD" by (simp add: orElse_def)
  from generate_renders_selection_empty_cache[OF 1 2 3, of initialBackend "Some MD" None]
       generate_renders_selection_empty_cache[OF 1 2 3, of "snd (onmessage tagHost initialBackend ExportMd)"]
       e o
  show ?thesis by simp
qed

text \<open>
  Claim C8 fails after an export. The file's header says that Generate is
  single-selection only and that the full export runs only on the export requests. But
  an export leaves the scanned sets in the cache, which nothing clears, and \<open>ui-generate\<close>
  with a format runs the batch whenever the cache holds sets. With the loose component
  "Tag" selected: before the export the request posts the rendering of "Tag"; after
  \<open>export-md\<close> the same request posts no generation-result at all, and completes with the
  aggregate of the cached set.
\<close>

theorem generate_after_export_ignores_selection:
  "toMarkdownTarget (h_nodeById tagHost) (resolveFromSelectionAsync (h_selection tagHost)) = Inr tagMarkdown
   \<and> generationResults (fst (onmessage tagHost initialBackend (UiGenerate (Some MD) None)))
       = [(Some MD, MdOutput tagMarkdown)]
   \<and> generationResults
       (fst (onmessage tagHost (snd (onmessage tagHost initialBackend ExportMd)) (UiGenerate (Some MD) None)))
       = []
   \<and> genCompleteContents
       (fst (onmessage tagHost (snd (onmessage tagHost initialBackend ExportMd)) (UiGenerate (Some MD) None)))
       = [MdContent (joinWith partsSeparator (map (markdownPart iconNodes) [hasIconSet]))]"
proof -
  have nb: "h_nodeById tagHost = iconNodes" by (simp add: tagHost_def)
  have 1: "toMarkdownTarget (h_nodeById tagHost) (resolveFromSelectionAsync (h_selection tagHost)) = Inr tagMarkdown"
    by (simp add: nb tag_selection tag_markdown)
  have ht: "hasTarget (resolveFromSelectionAsync (h_selection tagHost))"
    by (simp add: tag_selection hasTarget_def componentTarget_def)
  have e: "exportScanCache initialBackend = []" by (simp add: initialBackend_def)
  have 2: "generationResults (fst (onmessage tagHost initialBackend (UiGenerate (Some MD) None)))
       = [(Some MD, MdOutput tagMarkdown)]"
    by (simp add: generate_with_empty_cache[OF e ht 1] generationResults_def List.map_filter_simps)
  have pl: "h_pagesLoad tagHost" by (simp add: tagHost_def)
  have st: "snd (onmessage tagHost initialBackend ExportMd) =
      initialBackend\<lparr>exportScanCache := [hasIconSet], exportScanFormat := None, busy := False, scanAllowed := False\<rparr>"
    using exportRequest_state[OF pl] by (simp add: onmessage_def tagHost_def)
  have ne: "exportScanCache (snd (onmessage tagHost initialBackend ExportMd)) \<noteq> []" by (simp add: st)
  have 3: "generationResults
       (fst (onmessage tagHost (snd (onmessage tagHost initialBackend ExportMd)) (UiGenerate (Some MD) None))) = []"
    by (simp only: generate_with_cache[OF ne] generationResults_stream)
  have g: "genCompleteContents [GenStart n] = []" "genCompleteContents [GenComplete c f] = [c]" for n c f
    by (simp_all add: genCompleteContents_def List.map_filter_simps)
  have 4: "genCompleteContents
       (fst (onmessage tagHost (snd (onmessage tagHost initialBackend ExportMd)) (UiGenerate (Some MD) None)))
       = [MdContent (joinWith partsSeparator (map (markdownPart iconNodes) [hasIconSet]))]"
    unfolding generate_with_cache[OF ne] streamGenerateAll_md genCompleteContents_append genTicks_projections g
    by (simp add: st nb)
  from 1 2 3 4 show ?thesis by blast
qed

section \<open>The scan permission flag\<close>













end
